theory Spec2Isabelle
  imports Complex_Main "HOL-Library.Log_Nat" "HOL-Library.Word"
begin
section \<open>The 2048 move engine of \<open>src/index.tsx\<close>\<close>

text \<open>
  The component \<open>App\<close> keeps a board of tiles, a score, a best score and two flags. Every
  function below is the translation of the function of the same name inside \<open>App\<close>.
  The file holds the component twice; the one translated is the first, typed one, which
  tracks the merged cells for the animation. The second is an earlier version of it
  without that tracking.

  A grid is the \<open>number[][]\<close> of the source: a list of rows, each a list of cells, the cell
  \<open>0\<close> being empty. Reads outside an array are written out: in JavaScript \<open>g[i]\<close> outside
  the array is \<open>undefined\<close>, and reading a property of \<open>undefined\<close> raises a TypeError.
\<close>

subsection \<open>Faults\<close>

text \<open>
  \<open>TypeError\<close> and \<open>RangeError\<close> are the exceptions of the source language.
  \<open>OutOfGrid\<close> is not an exception: it marks the point where the source would leave the
  grids of numbers this development is about, by reading a cell past the end of an
  existing row (which gives \<open>undefined\<close>) or by writing one there (which makes the row
  longer). No call of the program reaches it.
\<close>

datatype fault = TypeError | RangeError | OutOfGrid

definition TILE_COUNT :: nat where
  "TILE_COUNT = 4"

subsection \<open>rotate\<close>

text \<open>The function \<open>rotate\<close> inside \<open>move\<close>, named \<open>rotate_grid\<close> here.\<close>

text \<open>
  One pass of the loop of \<open>rotate\<close>: a new \<open>TILE_COUNT \<times> TILE_COUNT\<close> grid with
  \<open>newGrid[r][c] = g[TILE_COUNT - 1 - c][r]\<close>. The first cell read is
  \<open>g[TILE_COUNT - 1][0]\<close>, so a grid with fewer than \<open>TILE_COUNT\<close> rows raises at once;
  with all rows present no read can raise. \<open>turn\<close> is the grid the pass builds.
\<close>

definition turn :: "'a list list \<Rightarrow> 'a list list" where
  "turn g = map (\<lambda>r. map (\<lambda>c. g ! (TILE_COUNT - 1 - c) ! r) [0..<TILE_COUNT]) [0..<TILE_COUNT]"

definition rotate_grid_once :: "'a list list \<Rightarrow> fault + 'a list list" where
  "rotate_grid_once g =
     (if length g < TILE_COUNT then Inl TypeError
      else if list_ex (\<lambda>row. length row < TILE_COUNT) (take TILE_COUNT g) then Inl OutOfGrid
      else Inr (turn g))"

fun rotate_grid :: "'a list list \<Rightarrow> nat \<Rightarrow> fault + 'a list list" where
  "rotate_grid g 0 = Inr g"
| "rotate_grid g (Suc n) = (case rotate_grid_once g of Inl e \<Rightarrow> Inl e | Inr g' \<Rightarrow> rotate_grid g' n)"

text \<open>The grids of the game: \<open>TILE_COUNT\<close> rows of \<open>TILE_COUNT\<close> cells.\<close>

definition wf_grid :: "'a list list \<Rightarrow> bool" where
  "wf_grid g = (length g = TILE_COUNT \<and> list_all (\<lambda>row. length row = TILE_COUNT) g)"

subsection \<open>Directions\<close>

text \<open>
  The type \<open>Direction\<close> with its values \<open>'up'\<close>, \<open>'down'\<close>, \<open>'left'\<close> and \<open>'right'\<close>, and
  the table \<open>rotations\<close> of \<open>move\<close>.
\<close>

datatype direction = Up | Down | Left_dir | Right_dir

fun rotations :: "direction \<Rightarrow> nat" where
  "rotations Up = 1"
| "rotations Right_dir = 2"
| "rotations Down = 3"
| "rotations Left_dir = 0"

subsection \<open>The local variables of \<open>move\<close>\<close>

text \<open>
  \<open>mergedCells\<close> is the \<open>Set<string>\<close> of the source; its members are the strings
  \<open>`${a},${b}`\<close> of two numbers, held here as the pairs \<open>(a, b)\<close>.
  \<open>winSet\<close> records that \<open>setIsWin(true)\<close> has been called.
\<close>

record locals =
  currentGrid :: "int list list"
  scoreToAdd :: int
  moved :: bool
  mergedCells :: "(nat \<times> nat) set"
  winSet :: bool

text \<open>
  The two lines that track a merged cell: the coordinate \<open>[r, newRow.length - 1]\<close> is
  wrapped into a one-row grid, handed to \<open>rotate\<close> with \<open>(4 - numRotations) % 4\<close>, and
  row \<open>0\<close> of the result gives the pair that is added to \<open>mergedCells\<close>.
\<close>

definition track_merged :: "nat \<Rightarrow> nat \<Rightarrow> nat \<Rightarrow> fault + (nat \<times> nat)" where
  "track_merged numRotations r k =
     (case rotate_grid [[r, k]] ((4 - numRotations) mod 4) of
        Inl e \<Rightarrow> Inl e
      | Inr g \<Rightarrow>
          (case g of
             [] \<Rightarrow> Inl TypeError
           | unrotated # _ \<Rightarrow>
               (case unrotated of
                  a # b # _ \<Rightarrow> Inr (a, b)
                | _ \<Rightarrow> Inl OutOfGrid)))"

text \<open>
  The inner loop of \<open>move\<close> over the compacted row, from index \<open>i\<close>. A raise leaves the
  handler, so the local variables are lost; what remains of the pass is whether
  \<open>setIsWin(true)\<close> had been called, which the left summand carries with the fault.
\<close>

function merge_loop ::
  "nat \<Rightarrow> nat \<Rightarrow> int list \<Rightarrow> nat \<Rightarrow> int list \<Rightarrow> locals \<Rightarrow> (fault \<times> bool) + (int list \<times> locals)" where
  "merge_loop numRotations r row i newRow st =
     (if i < length row then
        (if i + 1 < length row \<and> row ! i = row ! (i + 1) then
           (let newValue = row ! i * 2;
                newRow1 = newRow @ [newValue];
                st1 = st\<lparr>scoreToAdd := scoreToAdd st + newValue,
                         winSet := (winSet st \<or> newValue = 2048)\<rparr>
            in case track_merged numRotations r (length newRow1 - 1) of
                 Inl e \<Rightarrow> Inl (e, winSet st1)
               | Inr t \<Rightarrow>
                   merge_loop numRotations r row (i + 2) newRow1
                     (st1\<lparr>mergedCells := insert t (mergedCells st1)\<rparr>))
         else merge_loop numRotations r row (i + 1) (newRow @ [row ! i]) st)
      else Inr (newRow, st))"
  by pat_completeness auto

termination
  by (relation "measure (\<lambda>(numRotations, r, row, i, newRow, st). length row - i)") auto

text \<open>
  The loop of \<open>move\<close> over the rows, from row \<open>r\<close>. The two \<open>join(',')\<close> strings of the
  source differ exactly when the two arrays of numbers differ, which is what the model
  compares. \<open>Array(n)\<close> with a negative \<open>n\<close> raises a RangeError.
\<close>

function rows_loop :: "nat \<Rightarrow> nat \<Rightarrow> locals \<Rightarrow> (fault \<times> bool) + locals" where
  "rows_loop numRotations r st =
     (if r < TILE_COUNT then
        (if r < length (currentGrid st) then
           (let row = filter (\<lambda>cell. cell \<noteq> 0) (currentGrid st ! r) in
            case merge_loop numRotations r row 0 [] st of
              Inl e \<Rightarrow> Inl e
            | Inr (newRow, st1) \<Rightarrow>
                if TILE_COUNT < length newRow then Inl (RangeError, winSet st1)
                else
                  (let paddedRow = newRow @ replicate (TILE_COUNT - length newRow) 0;
                       st2 = (if currentGrid st1 ! r \<noteq> paddedRow then st1\<lparr>moved := True\<rparr> else st1)
                   in rows_loop numRotations (r + 1)
                        (st2\<lparr>currentGrid := (currentGrid st2)[r := paddedRow]\<rparr>)))
         else Inl (TypeError, winSet st))
      else Inr st)"
  by pat_completeness auto

termination
  by (relation "measure (\<lambda>(numRotations, r, st). TILE_COUNT - r)") auto

text \<open>
  The part of \<open>move\<close> between \<open>getGrid()\<close> and \<open>if (moved)\<close>: rotate, slide and merge
  every row, rotate back. This is the move without the random spawn.
\<close>

definition slide_and_merge :: "direction \<Rightarrow> int list list \<Rightarrow> (fault \<times> bool) + locals" where
  "slide_and_merge d grid =
     (let numRotations = rotations d in
      case rotate_grid grid numRotations of
        Inl e \<Rightarrow> Inl (e, False)
      | Inr g1 \<Rightarrow>
          (case rows_loop numRotations 0
                  \<lparr>currentGrid = g1, scoreToAdd = 0, moved = False, mergedCells = {},
                   winSet = False\<rparr> of
             Inl e \<Rightarrow> Inl e
           | Inr st \<Rightarrow>
               (case rotate_grid (currentGrid st) ((4 - numRotations) mod 4) of
                  Inl e \<Rightarrow> Inl (e, winSet st)
                | Inr g2 \<Rightarrow> Inr (st\<lparr>currentGrid := g2\<rparr>))))"

subsection \<open>Numbers\<close>

text \<open>
  The numbers of the source language are the binary64 numbers of IEEE 754: a sign, 53
  significant bits and a binary exponent from \<open>-1022\<close> to \<open>1023\<close>. A finite one is held
  here as the rational number it denotes, the sign of zero apart. \<open>floor_log2 x\<close> is the
  exponent of a positive \<open>x\<close>, the \<open>e\<close> with \<open>2^e \<le> x < 2^(e+1)\<close>, computed from the bit
  lengths of numerator and denominator. \<open>binary64_round\<close> is the rounding of every
  arithmetic operation and of every decimal literal: to the nearest multiple of the last
  place of the 53 bits (of \<open>2^-1074\<close> below the least exponent), a tie going to the
  even multiple. It leaves the largest exponent unbounded; a result of magnitude \<open>2^1024\<close>
  or more stands for an infinity, which the one user below that can reach it tests.
\<close>

definition floor_log2 :: "rat \<Rightarrow> int" where
  "floor_log2 x =
     (case quotient_of x of
        (a, b) \<Rightarrow> (let d = bitlen a - bitlen b in if 2 powi d \<le> x then d else d - 1))"

definition round_half_even :: "rat \<Rightarrow> int" where
  "round_half_even y =
     (let f = \<lfloor>y\<rfloor>; r = y - of_int f
      in if r < 1 / 2 then f else if 1 / 2 < r then f + 1 else if even f then f else f + 1)"

definition binary64_round :: "rat \<Rightarrow> rat" where
  "binary64_round x =
     (if x = 0 then 0
      else (let e = max (floor_log2 \<bar>x\<bar>) (- 1022); q = 2 powi (e - 52)
            in of_int (round_half_even (x / q)) * q))"

text \<open>The rationals that are binary64 numbers, and the results of \<open>Math.random()\<close>.\<close>

definition is_binary64 :: "rat \<Rightarrow> bool" where
  "is_binary64 x = (binary64_round x = x \<and> \<bar>x\<bar> < 2 ^ 1024)"

definition is_random :: "rat \<Rightarrow> bool" where
  "is_random u = (is_binary64 u \<and> 0 \<le> u \<and> u < 1)"

subsection \<open>addRandomTile, findNewTilePos, checkGameOver\<close>

text \<open>The cells \<open>(r, c)\<close> of the two nested loops, in the order the loops visit them.\<close>

definition cells :: "(nat \<times> nat) list" where
  "cells = concat (map (\<lambda>r. map (\<lambda>c. (r, c)) [0..<TILE_COUNT]) [0..<TILE_COUNT])"

text \<open>
  \<open>emptyCells\<close> as \<open>addRandomTile\<close> collects it. A missing row raises; a missing cell
  reads as \<open>undefined\<close>, which is not \<open>0\<close>.
\<close>

definition emptyCells :: "int list list \<Rightarrow> fault + (nat \<times> nat) list" where
  "emptyCells grid =
     (if length grid < TILE_COUNT then Inl TypeError
      else Inr (filter (\<lambda>(r, c). c < length (grid ! r) \<and> grid ! r ! c = 0) cells))"

text \<open>
  The two calls of \<open>Math.random()\<close> are the arguments \<open>u1\<close> and \<open>u2\<close>: binary64 numbers
  with \<open>0 \<le> u < 1\<close> (\<open>is_random\<close>). The product \<open>Math.random() * emptyCells.length\<close> is
  rounded to binary64 before \<open>Math.floor\<close>, and the literal \<open>0.9\<close> is the binary64 number
  nearest to nine tenths. Destructuring an element outside \<open>emptyCells\<close> raises.
\<close>

definition addRandomTile :: "int list list \<Rightarrow> rat \<Rightarrow> rat \<Rightarrow> fault + int list list" where
  "addRandomTile grid u1 u2 =
     (case emptyCells grid of
        Inl e \<Rightarrow> Inl e
      | Inr ec \<Rightarrow>
          if length ec > 0 then
            (let k = \<lfloor>binary64_round (u1 * of_nat (length ec))\<rfloor> in
             if 0 \<le> k \<and> k < int (length ec) then
               (case ec ! nat k of
                  (r, c) \<Rightarrow>
                    Inr (grid[r := (grid ! r)[c := (if u2 < binary64_round (9 / 10) then 2 else 4)]]))
             else Inl TypeError)
          else Inr grid)"

definition grid_fault :: "int list list \<Rightarrow> fault option" where
  "grid_fault grid =
     (if length grid < TILE_COUNT then Some TypeError
      else if list_ex (\<lambda>row. length row < TILE_COUNT) (take TILE_COUNT grid) then Some OutOfGrid
      else None)"

definition findNewTilePos :: "int list list \<Rightarrow> int list list \<Rightarrow> fault + (nat \<times> nat) option" where
  "findNewTilePos oldGrid newGrid =
     (case grid_fault oldGrid of
        Some e \<Rightarrow> Inl e
      | None \<Rightarrow>
          (case grid_fault newGrid of
             Some e \<Rightarrow> Inl e
           | None \<Rightarrow>
               Inr (find (\<lambda>(r, c). oldGrid ! r ! c = 0 \<and> newGrid ! r ! c \<noteq> 0) cells)))"

text \<open>
  The scan of \<open>checkGameOver\<close> over the remaining cells: \<open>False\<close> is one of the three
  early returns, \<open>True\<close> is reaching \<open>setIsGameOver(true)\<close>.
\<close>

fun game_over_scan :: "int list list \<Rightarrow> (nat \<times> nat) list \<Rightarrow> bool" where
  "game_over_scan grid [] = True"
| "game_over_scan grid ((r, c) # rest) =
     (if grid ! r ! c = 0 then False
      else if r < TILE_COUNT - 1 \<and> grid ! r ! c = grid ! (r + 1) ! c then False
      else if c < TILE_COUNT - 1 \<and> grid ! r ! c = grid ! r ! (c + 1) then False
      else game_over_scan grid rest)"

definition checkGameOver :: "int list list \<Rightarrow> fault + bool" where
  "checkGameOver grid =
     (case grid_fault grid of
        Some e \<Rightarrow> Inl e
      | None \<Rightarrow> Inr (game_over_scan grid cells))"

subsection \<open>The best score and its store\<close>

text \<open>
  The values a number of the program can take where the best score is read and compared:
  \<open>NaN\<close>, the two infinities, and the integers. The sign of zero is not kept: \<open>-0\<close> and
  \<open>+0\<close> compare alike and print alike.
\<close>

datatype jsnum = NaN | PosInf | NegInf | Num int

text \<open>\<open>newScore > bestScore\<close>: a comparison with \<open>NaN\<close> is false.\<close>

fun js_gt :: "int \<Rightarrow> jsnum \<Rightarrow> bool" where
  "js_gt a NaN = False"
| "js_gt a PosInf = False"
| "js_gt a NegInf = True"
| "js_gt a (Num b) = (a > b)"

text \<open>
  A string of the source language is a sequence of 16-bit code units. \<open>utf16\<close> gives the
  string of a literal whose characters are below 256, one code unit each.
\<close>

definition utf16 :: "string \<Rightarrow> 16 word list" where
  "utf16 s = map of_char s"

text \<open>
  The number of a mathematical integer: rounded to binary64, an infinity from \<open>2^1024\<close>
  on. A rounded integer is an integer (lemma \<open>binary64_round_of_int\<close>).
\<close>

definition number_of_integer :: "int \<Rightarrow> jsnum" where
  "number_of_integer m =
     (let v = binary64_round (of_int m)
      in if 2 ^ 1024 \<le> v then PosInf else if v \<le> - (2 ^ 1024) then NegInf else Num \<lfloor>v\<rfloor>)"

text \<open>
  \<open>parseInt\<close> of the language with no radix: leading white space is dropped (the white
  space and line terminator code units of the language), then one sign, then a prefix
  \<open>0x\<close> or \<open>0X\<close> selects radix 16; the longest run of digits of the radix is the integer,
  and no digit at all gives \<open>NaN\<close>. The language lets an implementation replace the
  decimal digits after the 20th significant one by zeros; the model keeps them.
\<close>

definition isWhiteSpace :: "16 word \<Rightarrow> bool" where
  "isWhiteSpace c =
     (let n = unat c
      in n \<in> {9, 10, 11, 12, 13, 32, 160, 5760, 8232, 8233, 8239, 8287, 12288, 65279}
         \<or> (8192 \<le> n \<and> n \<le> 8202))"

definition digitValue :: "16 word \<Rightarrow> nat option" where
  "digitValue c =
     (let n = unat c in
      if 48 \<le> n \<and> n \<le> 57 then Some (n - 48)
      else if 97 \<le> n \<and> n \<le> 122 then Some (n - 87)
      else if 65 \<le> n \<and> n \<le> 90 then Some (n - 55)
      else None)"

definition isRadixDigit :: "nat \<Rightarrow> 16 word \<Rightarrow> bool" where
  "isRadixDigit R c = (case digitValue c of None \<Rightarrow> False | Some v \<Rightarrow> v < R)"

definition parseInt :: "16 word list \<Rightarrow> jsnum" where
  "parseInt inputString =
     (let S = dropWhile isWhiteSpace inputString;
          sign = (if S \<noteq> [] \<and> hd S = of_char CHR ''-'' then - 1 else 1 :: int);
          S1 = (if S \<noteq> [] \<and> (hd S = of_char CHR ''+'' \<or> hd S = of_char CHR ''-'') then tl S else S);
          hex = (take 2 S1 = utf16 ''0x'' \<or> take 2 S1 = utf16 ''0X'');
          R = (if hex then 16 else 10 :: nat);
          S2 = (if hex then drop 2 S1 else S1);
          Z = takeWhile (isRadixDigit R) S2
      in if Z = [] then NaN
         else number_of_integer
                (sign * foldl (\<lambda>a c. a * int R + (case digitValue c of None \<Rightarrow> 0 | Some v \<Rightarrow> int v)) 0 Z))"

text \<open>
  The initial value of \<open>bestScore\<close>: \<open>parseInt(localStorage.getItem(BEST_SCORE_KEY) || '0')\<close>.
  \<open>getItem\<close> gives \<open>null\<close> (here \<open>None\<close>) for an absent key; \<open>null\<close> and the empty string
  are the two values that \<open>||\<close> replaces.
\<close>

definition initialBestScore :: "16 word list option \<Rightarrow> jsnum" where
  "initialBestScore item =
     parseInt (case item of None \<Rightarrow> utf16 ''0'' | Some s \<Rightarrow> if s = [] then utf16 ''0'' else s)"

text \<open>\<open>toString\<close> of an integer: its decimal digits (below \<open>10^21\<close>).\<close>

function digits :: "nat \<Rightarrow> 16 word list" where
  "digits n =
     (if n < 10 then [utf16 ''0123456789'' ! n]
      else digits (n div 10) @ [utf16 ''0123456789'' ! (n mod 10)])"
  by pat_completeness auto

termination
  by (relation "measure (\<lambda>n. n)") auto

definition toString :: "int \<Rightarrow> 16 word list" where
  "toString i = (if i < 0 then of_char CHR ''-'' # digits (nat (- i)) else digits (nat i))"

subsection \<open>The board of tiles\<close>

text \<open>
  The interface \<open>TileData\<close>. Its fields \<open>value\<close>, \<open>x\<close>, \<open>y\<close> and \<open>id\<close> carry the prefix
  \<open>tile_\<close> here.
\<close>

record TileData =
  tile_value :: int
  tile_x :: nat
  tile_y :: nat
  tile_id :: nat
  isNew :: bool
  isMerged :: bool

text \<open>
  \<open>transformToTileObjects\<close>: the two nested loops over the remaining cells, with the
  counter \<open>idCounter.current\<close> passed along and returned. The animation data are the
  optional \<open>newTilePos\<close> and the optional set \<open>mergedCells\<close> (\<open>animMerged\<close> here).
\<close>

fun tiles_scan ::
  "int list list \<Rightarrow> (nat \<times> nat) option \<Rightarrow> (nat \<times> nat) set option \<Rightarrow> (nat \<times> nat) list \<Rightarrow> nat
     \<Rightarrow> TileData list \<times> nat" where
  "tiles_scan grid newTilePos animMerged [] idCounter = ([], idCounter)"
| "tiles_scan grid newTilePos animMerged ((r, c) # rest) idCounter =
     (if grid ! r ! c \<noteq> 0 then
        (case tiles_scan grid newTilePos animMerged rest (idCounter + 1) of
           (tiles, idCounter') \<Rightarrow>
             (\<lparr>tile_value = grid ! r ! c, tile_x = c, tile_y = r, tile_id = idCounter,
               isNew = (newTilePos = Some (r, c)),
               isMerged = (case animMerged of None \<Rightarrow> False | Some m \<Rightarrow> (r, c) \<in> m)\<rparr> # tiles,
              idCounter'))
      else tiles_scan grid newTilePos animMerged rest idCounter)"

definition transformToTileObjects ::
  "int list list \<Rightarrow> (nat \<times> nat) option \<Rightarrow> (nat \<times> nat) set option \<Rightarrow> nat
     \<Rightarrow> fault + (TileData list \<times> nat)" where
  "transformToTileObjects grid newTilePos animMerged idCounter =
     (case grid_fault grid of
        Some e \<Rightarrow> Inl e
      | None \<Rightarrow> Inr (tiles_scan grid newTilePos animMerged cells idCounter))"

text \<open>
  \<open>getGrid\<close>: a grid of zeros, then \<open>grid[tile.y][tile.x] = tile.value\<close> for every tile
  of the board in turn. A row that does not exist raises.
\<close>

fun getGrid_loop :: "TileData list \<Rightarrow> int list list \<Rightarrow> fault + int list list" where
  "getGrid_loop [] grid = Inr grid"
| "getGrid_loop (tile # rest) grid =
     (if tile_y tile < length grid then
        (if tile_x tile < length (grid ! tile_y tile) then
           getGrid_loop rest (grid[tile_y tile := (grid ! tile_y tile)[tile_x tile := tile_value tile]])
         else Inl OutOfGrid)
      else Inl TypeError)"

definition getGrid :: "TileData list \<Rightarrow> fault + int list list" where
  "getGrid tiles = getGrid_loop tiles (replicate TILE_COUNT (replicate TILE_COUNT 0))"

subsection \<open>The state of the component and \<open>move\<close>\<close>

text \<open>
  The state of \<open>App\<close> that \<open>move\<close> reads and writes: the values of \<open>useState\<close> for the
  board, the score, the best score and the two flags, the counter \<open>idCounter.current\<close>,
  and \<open>stored\<close>, the item \<open>bestScore2048\<close> of \<open>localStorage\<close>.
\<close>

record game =
  board :: "TileData list"
  idCounter :: nat
  score :: int
  bestScore :: jsnum
  stored :: "16 word list option"
  isGameOver :: bool
  isWin :: bool

text \<open>
  \<open>move\<close>, with the two random numbers of \<open>addRandomTile\<close>. The result is the fault that
  left the handler, if any, and the state with every setter applied that was called
  before.
\<close>

definition move :: "game \<Rightarrow> direction \<Rightarrow> rat \<Rightarrow> rat \<Rightarrow> fault option \<times> game" where
  "move s d u1 u2 =
     (if isGameOver s \<and> \<not> isWin s then (None, s)
      else
        (case getGrid (board s) of
           Inl e \<Rightarrow> (Some e, s)
         | Inr grid \<Rightarrow>
        (case slide_and_merge d grid of
           Inl (e, w) \<Rightarrow> (Some e, s\<lparr>isWin := (isWin s \<or> w)\<rparr>)
         | Inr st \<Rightarrow>
             (let s1 = s\<lparr>isWin := (isWin s \<or> winSet st)\<rparr> in
              if moved st then
                (case addRandomTile (currentGrid st) u1 u2 of
                   Inl e \<Rightarrow> (Some e, s1)
                 | Inr gridWithNewTile \<Rightarrow>
                     (case findNewTilePos (currentGrid st) gridWithNewTile of
                        Inl e \<Rightarrow> (Some e, s1)
                      | Inr newTilePos \<Rightarrow>
                     (case transformToTileObjects gridWithNewTile newTilePos
                             (Some (mergedCells st)) (idCounter s1) of
                        Inl e \<Rightarrow> (Some e, s1)
                      | Inr (tiles, idCounter') \<Rightarrow>
                          (let newScore = score s + scoreToAdd st;
                               s2 = s1\<lparr>board := tiles, idCounter := idCounter',
                                        score := newScore\<rparr>;
                               s3 = (if js_gt newScore (bestScore s)
                                     then s2\<lparr>bestScore := Num newScore,
                                              stored := Some (toString newScore)\<rparr>
                                     else s2)
                           in case checkGameOver gridWithNewTile of
                                Inl e \<Rightarrow> (Some e, s3)
                              | Inr over \<Rightarrow>
                                  (None, if over then s3\<lparr>isGameOver := True\<rparr> else s3)))))
              else (None, s1)))))"

subsection \<open>Starting a game and the states of play\<close>

text \<open>
  \<open>createInitialBoard\<close> and \<open>startGame\<close>, with the four random numbers of the two calls
  of \<open>addRandomTile\<close>. \<open>startGame\<close> sets the counter first, so a fault leaves the state
  with the counter reset and nothing else changed.
\<close>

definition createInitialBoard ::
  "nat \<Rightarrow> rat \<Rightarrow> rat \<Rightarrow> rat \<Rightarrow> rat \<Rightarrow> fault + (TileData list \<times> nat)" where
  "createInitialBoard idCounter0 u1 u2 u3 u4 =
     (case addRandomTile (replicate TILE_COUNT (replicate TILE_COUNT 0)) u1 u2 of
        Inl e \<Rightarrow> Inl e
      | Inr newGrid1 \<Rightarrow>
          (case addRandomTile newGrid1 u3 u4 of
             Inl e \<Rightarrow> Inl e
           | Inr newGrid2 \<Rightarrow> transformToTileObjects newGrid2 None None idCounter0))"

definition startGame :: "game \<Rightarrow> rat \<Rightarrow> rat \<Rightarrow> rat \<Rightarrow> rat \<Rightarrow> fault option \<times> game" where
  "startGame s u1 u2 u3 u4 =
     (let s0 = s\<lparr>idCounter := 1\<rparr> in
      case createInitialBoard (idCounter s0) u1 u2 u3 u4 of
        Inl e \<Rightarrow> (Some e, s0)
      | Inr (tiles, idCounter') \<Rightarrow>
          (None, s0\<lparr>board := tiles, idCounter := idCounter', score := 0,
                    isGameOver := False, isWin := False\<rparr>))"

text \<open>
  The state of \<open>App\<close> when it is mounted, \<open>item\<close> being the stored best score: the
  initial values of the calls of \<open>useState\<close> and \<open>useRef\<close>.
\<close>

definition mount :: "16 word list option \<Rightarrow> game" where
  "mount item =
     \<lparr>board = [], idCounter = 1, score = 0, bestScore = initialBestScore item, stored = item,
      isGameOver = False, isWin = False\<rparr>"

text \<open>
  The states the program reaches. Only \<open>startGame\<close> (the effect after mounting and the
  two buttons) and \<open>move\<close> (the keys and the swipes) write the state, each call running
  on the state the one before it left, with the results of \<open>Math.random()\<close> as its random
  numbers.
\<close>

inductive reachable :: "game \<Rightarrow> bool" where
  reachable_mount: "reachable (mount item)"
| reachable_startGame:
    "reachable s \<Longrightarrow> is_random u1 \<Longrightarrow> is_random u2 \<Longrightarrow> is_random u3 \<Longrightarrow> is_random u4 \<Longrightarrow>
       reachable (snd (startGame s u1 u2 u3 u4))"
| reachable_move:
    "reachable s \<Longrightarrow> is_random u1 \<Longrightarrow> is_random u2 \<Longrightarrow> reachable (snd (move s d u1 u2))"

text \<open>
  What holds of the board and the flags in every state of play: the board gives a grid
  whose tiles are powers of two from 2 on; if a tile is 2048 or more the flag \<open>isWin\<close> is
  set; and if the flag \<open>isGameOver\<close> is set the grid is one the game-over check takes as
  lost.
\<close>

definition is_tile_value :: "int \<Rightarrow> bool" where
  "is_tile_value v = (2 \<le> v \<and> v = 2 ^ nat (bitlen v - 1))"

definition play_invariant :: "game \<Rightarrow> bool" where
  "play_invariant s =
     (case getGrid (board s) of
        Inl e \<Rightarrow> False
      | Inr g \<Rightarrow>
          list_all (\<lambda>v. v = 0 \<or> is_tile_value v) (concat g)
          \<and> (list_ex (\<lambda>v. 2048 \<le> v) (concat g) \<longrightarrow> isWin s)
          \<and> (isGameOver s \<longrightarrow> game_over_scan g cells))"

subsection \<open>The row step as the specification words it\<close>

text \<open>
  These functions are not in the source. They follow the words of the specification
  for one compacted row (zeros already removed): scan from the left, merge the first of
  each adjacent equal pair into a tile of double value, never merge a merged tile again.
  \<open>spec_merge_row\<close> is the row after the merges, \<open>spec_merge_values\<close> the values the
  merges produce, in order, and \<open>spec_merge_positions k\<close> the indices of the merged tiles
  in the new row, counted from \<open>k\<close>. They are compared with the loops of \<open>move\<close> below.
\<close>

fun spec_merge_row :: "int list \<Rightarrow> int list" where
  "spec_merge_row (x # y # xs) =
     (if x = y then (x * 2) # spec_merge_row xs else x # spec_merge_row (y # xs))"
| "spec_merge_row xs = xs"

fun spec_merge_values :: "int list \<Rightarrow> int list" where
  "spec_merge_values (x # y # xs) =
     (if x = y then (x * 2) # spec_merge_values xs else spec_merge_values (y # xs))"
| "spec_merge_values xs = []"

fun spec_merge_positions :: "nat \<Rightarrow> int list \<Rightarrow> nat set" where
  "spec_merge_positions k (x # y # xs) =
     (if x = y then insert k (spec_merge_positions (k + 1) xs)
      else spec_merge_positions (k + 1) (y # xs))"
| "spec_merge_positions k xs = {}"

text \<open>
  Two equal tiles next to each other in a row, which is what a move along the row can
  still merge once the row is compacted.
\<close>

definition adjacent_equal :: "int list \<Rightarrow> bool" where
  "adjacent_equal row =
     list_ex (\<lambda>i. row ! i \<noteq> 0 \<and> row ! i = row ! Suc i) [0..<length row - 1]"

text \<open>Remove the zeros, merge, pad on the right with zeros back to the width 4.\<close>

definition nonzero_cells :: "int list \<Rightarrow> int list" where
  "nonzero_cells row = filter (\<lambda>cell. cell \<noteq> 0) row"

definition spec_slide_row :: "int list \<Rightarrow> int list" where
  "spec_slide_row row =
     (let m = spec_merge_row (nonzero_cells row) in m @ replicate (TILE_COUNT - length m) 0)"

text \<open>The values produced by the merges of all rows of a grid, in the order of the scan.\<close>

definition grid_merge_values :: "int list list \<Rightarrow> int list" where
  "grid_merge_values g = concat (map (\<lambda>row. spec_merge_values (nonzero_cells row)) g)"

text \<open>The cells of the merged tiles of the rows of a grid, the first row being row \<open>r\<close>.\<close>

fun grid_merge_cells :: "nat \<Rightarrow> int list list \<Rightarrow> (nat \<times> nat) set" where
  "grid_merge_cells r [] = {}"
| "grid_merge_cells r (row # rows) =
     Pair r ` spec_merge_positions 0 (nonzero_cells row) \<union> grid_merge_cells (r + 1) rows"




text \<open>
  The condition under which tracking a merged cell returns: the rotation count handed
  to \<open>rotate\<close> is \<open>0\<close>.
\<close>

definition tags_ok :: "nat \<Rightarrow> bool" where
  "tags_ok numRotations = ((4 - numRotations) mod 4 = 0)"

section \<open>Properties\<close>

lemma list4: "length xs = 4 \<Longrightarrow> \<exists>a b c d. xs = [a, b, c, d]"
  by (auto simp: length_Suc_conv numeral_eq_Suc)

lemma wf_grid_cells:
  assumes "wf_grid g"
  shows "\<exists>a0 a1 a2 a3 b0 b1 b2 b3 c0 c1 c2 c3 d0 d1 d2 d3.
           g = [[a0, a1, a2, a3], [b0, b1, b2, b3], [c0, c1, c2, c3], [d0, d1, d2, d3]]"
proof -
  from assms have "length g = 4" by (simp add: wf_grid_def TILE_COUNT_def)
  then obtain r0 r1 r2 r3 where g: "g = [r0, r1, r2, r3]" using list4 by blast
  with assms have "length r0 = 4" "length r1 = 4" "length r2 = 4" "length r3 = 4"
    by (simp_all add: wf_grid_def TILE_COUNT_def)
  then show ?thesis using g by (metis list4)
qed

lemma upt4: "[0..<4] = [0, 1, 2, 3]"
  by (simp add: upt_rec)

lemma rotate_once_cells:
  "rotate_grid_once [[a0, a1, a2, a3], [b0, b1, b2, b3], [c0, c1, c2, c3], [d0, d1, d2, d3]] =
     Inr [[d0, c0, b0, a0], [d1, c1, b1, a1], [d2, c2, b2, a2], [d3, c3, b3, a3]]"
  by (simp add: rotate_grid_once_def turn_def TILE_COUNT_def upt4)

subsection \<open>The loops of \<open>move\<close> against the row step of the specification\<close>

lemma track_merged_eq:
  "track_merged nr r k = (if tags_ok nr then Inr (r, k) else Inl TypeError)"
proof (cases "(4 - nr) mod 4")
  case 0
  then show ?thesis by (simp add: track_merged_def tags_ok_def)
next
  case (Suc m)
  then show ?thesis by (simp add: track_merged_def tags_ok_def rotate_grid_once_def TILE_COUNT_def)
qed

declare merge_loop.simps [simp del]

declare rows_loop.simps [simp del]

lemma drop2: "Suc i < length row \<Longrightarrow> drop i row = row ! i # row ! Suc i # drop (Suc (Suc i)) row"
  by (simp add: Cons_nth_drop_Suc Suc_lessD)

lemma drop1: "i < length row \<Longrightarrow> \<not> Suc i < length row \<Longrightarrow> drop i row = [row ! i]"
  by (metis Cons_nth_drop_Suc drop_all not_less)

lemma merge_loop_ok:
  "tags_ok nr \<Longrightarrow>
   merge_loop nr r row i newRow st =
     Inr (newRow @ spec_merge_row (drop i row),
          st\<lparr>scoreToAdd := scoreToAdd st + sum_list (spec_merge_values (drop i row)),
             winSet := (winSet st \<or> 2048 \<in> set (spec_merge_values (drop i row))),
             mergedCells := mergedCells st \<union> Pair r ` spec_merge_positions (length newRow) (drop i row)\<rparr>)"
proof (induction nr r row i newRow st rule: merge_loop.induct)
  case (1 nr r row i newRow st)
  show ?case
  proof (cases "i < length row")
    case False
    then show ?thesis by (subst merge_loop.simps) simp
  next
    case True
    show ?thesis
    proof (cases "i + 1 < length row \<and> row ! i = row ! (i + 1)")
      case mrg: True
      then have d: "drop i row = row ! i # row ! Suc i # drop (Suc (Suc i)) row" by (intro drop2) simp
      show ?thesis
        using True mrg "1.prems" "1.IH"(1)[OF True mrg refl refl refl, of "(r, length newRow)"]
        by (subst merge_loop.simps) (auto simp: d track_merged_eq Let_def)
    next
      case nm: False
      show ?thesis
      proof (cases "i + 1 < length row")
        case True2: True
        then have d: "drop i row = row ! i # row ! Suc i # drop (Suc (Suc i)) row" by (intro drop2) simp
        have d1: "drop (Suc i) row = row ! Suc i # drop (Suc (Suc i)) row"
          using True2 by (simp add: Cons_nth_drop_Suc)
        show ?thesis
          using True nm True2 "1.prems" "1.IH"(2)[OF True nm]
          by (subst merge_loop.simps) (simp add: d d1)
      next
        case False2: False
        then have d: "drop i row = [row ! i]" using True by (intro drop1) simp_all
        have d1: "drop (Suc i) row = []" using False2 by simp
        show ?thesis
          using True nm False2 "1.prems" "1.IH"(2)[OF True nm]
          by (subst merge_loop.simps) (simp add: d d1)
      qed
    qed
  qed
qed

lemma merge_loop_raise:
  "\<not> tags_ok nr \<Longrightarrow>
   merge_loop nr r row i newRow st =
     (if spec_merge_values (drop i row) = [] then Inr (newRow @ drop i row, st)
      else Inl (TypeError, winSet st \<or> hd (spec_merge_values (drop i row)) = 2048))"
proof (induction nr r row i newRow st rule: merge_loop.induct)
  case (1 nr r row i newRow st)
  show ?case
  proof (cases "i < length row")
    case False
    then show ?thesis by (subst merge_loop.simps) simp
  next
    case True
    show ?thesis
    proof (cases "i + 1 < length row \<and> row ! i = row ! (i + 1)")
      case mrg: True
      then have d: "drop i row = row ! i # row ! Suc i # drop (Suc (Suc i)) row" by (intro drop2) simp
      show ?thesis
        using True mrg "1.prems"
        by (subst merge_loop.simps) (auto simp: d track_merged_eq Let_def)
    next
      case nm: False
      show ?thesis
      proof (cases "i + 1 < length row")
        case True2: True
        then have d: "drop i row = row ! i # row ! Suc i # drop (Suc (Suc i)) row" by (intro drop2) simp
        have d1: "drop (Suc i) row = row ! Suc i # drop (Suc (Suc i)) row"
          using True2 by (simp add: Cons_nth_drop_Suc)
        show ?thesis
          using True nm True2 "1.prems" "1.IH"(2)[OF True nm]
          by (subst merge_loop.simps) (simp add: d d1)
      next
        case False2: False
        then have d: "drop i row = [row ! i]" using True by (intro drop1) simp_all
        have d1: "drop (Suc i) row = []" using False2 by simp
        show ?thesis
          using True nm False2 "1.prems" "1.IH"(2)[OF True nm]
          by (subst merge_loop.simps) (simp add: d d1)
      qed
    qed
  qed
qed

lemma no_merge_row: "spec_merge_values xs = [] \<Longrightarrow> spec_merge_row xs = xs"
  by (induction xs rule: spec_merge_row.induct) (auto split: if_splits)

lemma no_merge_positions: "spec_merge_values xs = [] \<Longrightarrow> spec_merge_positions k xs = {}"
  by (induction k xs rule: spec_merge_positions.induct) (auto split: if_splits)

lemma merge_loop_eq:
  "merge_loop nr r row 0 [] st =
     (if tags_ok nr \<or> spec_merge_values row = [] then
        Inr (spec_merge_row row,
             st\<lparr>scoreToAdd := scoreToAdd st + sum_list (spec_merge_values row),
                winSet := (winSet st \<or> 2048 \<in> set (spec_merge_values row)),
                mergedCells := mergedCells st \<union> Pair r ` spec_merge_positions 0 row\<rparr>)
      else Inl (TypeError, winSet st \<or> hd (spec_merge_values row) = 2048))"
  using merge_loop_ok[of nr r row 0 "[]" st] merge_loop_raise[of nr r row 0 "[]" st]
  by (cases "tags_ok nr") (auto simp: no_merge_row no_merge_positions)

lemma length_spec_merge_row: "length (spec_merge_row xs) \<le> length xs"
  by (induction xs rule: spec_merge_row.induct) auto

lemma length_merge_lt: "spec_merge_values xs \<noteq> [] \<Longrightarrow> length (spec_merge_row xs) < length xs"
proof (induction xs rule: spec_merge_row.induct)
  case (1 x y xs)
  then show ?case using length_spec_merge_row[of xs] by (auto split: if_splits)
qed auto

lemma length_nonzero_cells: "length (nonzero_cells row) \<le> length row"
  by (simp add: nonzero_cells_def)

lemma length_spec_slide_row: "length row \<le> 4 \<Longrightarrow> length (spec_slide_row row) = 4"
  using length_spec_merge_row[of "nonzero_cells row"] length_nonzero_cells[of row]
  by (simp add: spec_slide_row_def Let_def TILE_COUNT_def)

lemma row_step:
  assumes "r < 4" "length g = 4" "length (g ! r) \<le> 4"
  shows "rows_loop nr r \<lparr>currentGrid = g, scoreToAdd = sc, moved = mv, mergedCells = mc, winSet = w\<rparr> =
     (if tags_ok nr \<or> spec_merge_values (nonzero_cells (g ! r)) = [] then
        rows_loop nr (Suc r)
          \<lparr>currentGrid = g[r := spec_slide_row (g ! r)],
           scoreToAdd = sc + sum_list (spec_merge_values (nonzero_cells (g ! r))),
           moved = (mv \<or> spec_slide_row (g ! r) \<noteq> g ! r),
           mergedCells = mc \<union> Pair r ` spec_merge_positions 0 (nonzero_cells (g ! r)),
           winSet = (w \<or> 2048 \<in> set (spec_merge_values (nonzero_cells (g ! r))))\<rparr>
      else Inl (TypeError, w \<or> hd (spec_merge_values (nonzero_cells (g ! r))) = 2048))"
proof -
  have le: "length (spec_merge_row (nonzero_cells (g ! r))) \<le> 4"
    using length_spec_merge_row[of "nonzero_cells (g ! r)"]
      length_nonzero_cells[of "g ! r"] assms(3) by linarith
  show ?thesis
    using assms le
    by (subst rows_loop.simps)
      (simp add: merge_loop_eq TILE_COUNT_def Let_def spec_slide_row_def nonzero_cells_def)
qed

lemma rows_loop_end:
  "4 \<le> r \<Longrightarrow> rows_loop nr r st = Inr st"
  by (subst rows_loop.simps) (simp add: TILE_COUNT_def)

lemma rows_loop_eq:
  assumes "length r0 \<le> 4" "length r1 \<le> 4" "length r2 \<le> 4" "length r3 \<le> 4"
  shows "rows_loop nr 0 \<lparr>currentGrid = [r0, r1, r2, r3], scoreToAdd = 0, moved = False,
            mergedCells = {}, winSet = False\<rparr> =
     (if tags_ok nr \<or> grid_merge_values [r0, r1, r2, r3] = [] then
        Inr \<lparr>currentGrid = map spec_slide_row [r0, r1, r2, r3],
             scoreToAdd = sum_list (grid_merge_values [r0, r1, r2, r3]),
             moved = (map spec_slide_row [r0, r1, r2, r3] \<noteq> [r0, r1, r2, r3]),
             mergedCells = grid_merge_cells 0 [r0, r1, r2, r3],
             winSet = (2048 \<in> set (grid_merge_values [r0, r1, r2, r3]))\<rparr>
      else Inl (TypeError, hd (grid_merge_values [r0, r1, r2, r3]) = 2048))"
proof (cases "tags_ok nr")
  case True
  then show ?thesis
    using assms
    by (auto simp add: row_step rows_loop_end length_spec_slide_row grid_merge_values_def
        numeral_3_eq_3 numeral_2_eq_2 Un_assoc)
next
  case False
  then show ?thesis
    using assms
    by (auto simp add: row_step rows_loop_end length_spec_slide_row grid_merge_values_def
        numeral_3_eq_3 numeral_2_eq_2 no_merge_row no_merge_positions)
qed

subsection \<open>Rotation\<close>

lemma rotate_wf_cells:
  "rotate_grid [[a0, a1, a2, a3], [b0, b1, b2, b3], [c0, c1, c2, c3], [d0, d1, d2, d3]] (Suc 0) =
     Inr [[d0, c0, b0, a0], [d1, c1, b1, a1], [d2, c2, b2, a2], [d3, c3, b3, a3]]"
  "rotate_grid [[a0, a1, a2, a3], [b0, b1, b2, b3], [c0, c1, c2, c3], [d0, d1, d2, d3]] 2 =
     Inr [[d3, d2, d1, d0], [c3, c2, c1, c0], [b3, b2, b1, b0], [a3, a2, a1, a0]]"
  "rotate_grid [[a0, a1, a2, a3], [b0, b1, b2, b3], [c0, c1, c2, c3], [d0, d1, d2, d3]] 3 =
     Inr [[a3, b3, c3, d3], [a2, b2, c2, d2], [a1, b1, c1, d1], [a0, b0, c0, d0]]"
  by (simp_all add: numeral_3_eq_3 numeral_2_eq_2 rotate_once_cells)

text \<open>
  Claim C5. For every 4 by 4 grid and every count among 0, 1, 2 and 3, rotating the grid
  \<open>count\<close> times and then \<open>(4 - count) mod 4\<close> more times with the same function returns
  the original grid, no rotation raising on the way; the rotation counts of the
  directions are left 0, up 1, right 2, down 3.
\<close>

theorem rotate_round_trip:
  assumes "wf_grid g" and "count \<in> {0, 1, 2, 3}"
  shows "(\<exists>g1. rotate_grid g count = Inr g1 \<and> wf_grid g1 \<and> rotate_grid g1 ((4 - count) mod 4) = Inr g)
         \<and> rotations Left_dir = 0 \<and> rotations Up = 1 \<and> rotations Right_dir = 2 \<and> rotations Down = 3"
proof -
  obtain a0 a1 a2 a3 b0 b1 b2 b3 c0 c1 c2 c3 d0 d1 d2 d3 where
    g: "g = [[a0, a1, a2, a3], [b0, b1, b2, b3], [c0, c1, c2, c3], [d0, d1, d2, d3]]"
    using wf_grid_cells[OF assms(1)] by blast
  from assms(2) consider "count = 0" | "count = 1" | "count = 2" | "count = 3" by auto
  then have "\<exists>g1. rotate_grid g count = Inr g1 \<and> wf_grid g1 \<and> rotate_grid g1 ((4 - count) mod 4) = Inr g"
  proof cases
    case 1
    then show ?thesis using assms(1) by simp
  next
    case 2
    then show ?thesis unfolding g by (simp add: rotate_wf_cells wf_grid_def TILE_COUNT_def del: rotate_grid.simps(2))
  next
    case 3
    then show ?thesis unfolding g by (simp add: rotate_wf_cells wf_grid_def TILE_COUNT_def del: rotate_grid.simps(2))
  next
    case 4
    then show ?thesis unfolding g by (simp add: rotate_wf_cells wf_grid_def TILE_COUNT_def del: rotate_grid.simps(2))
  qed
  then show ?thesis by simp
qed

theorem rotate_round_trip_witness:
  "wf_grid [[2, 0, 0, 4], [0, 8, 0, 0], [16, 0, 2, 0], [0, 0, 0, 32 :: int]] \<and> (3::nat) \<in> {0, 1, 2, 3}
   \<and> rotate_grid [[2, 0, 0, 4], [0, 8, 0, 0], [16, 0, 2, 0], [0, 0, 0, 32 :: int]] 3
       = Inr [[4, 0, 0, 32], [0, 0, 2, 0], [0, 8, 0, 0], [2, 0, 16, 0]]
   \<and> rotate_grid [[4, 0, 0, 32], [0, 0, 2, 0], [0, 8, 0, 0], [2, 0, 16, 0 :: int]] ((4 - 3) mod 4)
       = Inr [[2, 0, 0, 4], [0, 8, 0, 0], [16, 0, 2, 0], [0, 0, 0, 32]]"
  using rotate_round_trip[of "[[2, 0, 0, 4], [0, 8, 0, 0], [16, 0, 2, 0], [0, 0, 0, 32 :: int]]" 3]
  by (simp add: wf_grid_def TILE_COUNT_def rotate_wf_cells del: rotate_grid.simps(2))

subsection \<open>The move without the spawn on the grids of the game\<close>

lemma turn_cells:
  "turn [[a0, a1, a2, a3], [b0, b1, b2, b3], [c0, c1, c2, c3], [d0, d1, d2, d3]] =
     [[d0, c0, b0, a0], [d1, c1, b1, a1], [d2, c2, b2, a2], [d3, c3, b3, a3]]"
  by (simp add: turn_def TILE_COUNT_def upt4)

lemma wf_grid_turn: "wf_grid g \<Longrightarrow> wf_grid (turn g)"
  by (simp add: wf_grid_def turn_def TILE_COUNT_def list_all_iff)

lemma wf_grid_turns: "wf_grid g \<Longrightarrow> wf_grid ((turn ^^ n) g)"
  by (induction n) (simp_all add: wf_grid_turn)

lemma rotate_grid_once_wf: "wf_grid g \<Longrightarrow> rotate_grid_once g = Inr (turn g)"
  by (auto simp: rotate_grid_once_def wf_grid_def list_ex_iff list_all_iff dest: in_set_takeD)

lemma rotate_grid_wf: "wf_grid g \<Longrightarrow> rotate_grid g n = Inr ((turn ^^ n) g)"
proof (induction n arbitrary: g)
  case 0
  then show ?case by simp
next
  case (Suc n)
  then show ?case
    by (simp add: rotate_grid_once_wf wf_grid_turn funpow_swap1)
qed

lemma turn4: "wf_grid g \<Longrightarrow> (turn ^^ 4) g = g"
proof -
  assume w: "wf_grid g"
  obtain a0 a1 a2 a3 b0 b1 b2 b3 c0 c1 c2 c3 d0 d1 d2 d3 where
    g: "g = [[a0, a1, a2, a3], [b0, b1, b2, b3], [c0, c1, c2, c3], [d0, d1, d2, d3]]"
    using wf_grid_cells[OF w] by blast
  show ?thesis unfolding g by (simp add: numeral_eq_Suc turn_cells)
qed

lemma turn_back:
  assumes "wf_grid g" "nr < 4"
  shows "(turn ^^ ((4 - nr) mod 4)) ((turn ^^ nr) g) = g"
    and "(turn ^^ nr) ((turn ^^ ((4 - nr) mod 4)) g) = g"
proof -
  from assms(2) consider "nr = 0" | "nr = 1" | "nr = 2" | "nr = 3" by linarith
  then have "(4 - nr) mod 4 + nr = 4 \<or> (4 - nr) mod 4 + nr = 0" by cases simp_all
  then have a: "(turn ^^ ((4 - nr) mod 4 + nr)) g = g" using turn4[OF assms(1)] by auto
  then show "(turn ^^ ((4 - nr) mod 4)) ((turn ^^ nr) g) = g" by (simp add: funpow_add)
  from a have "(turn ^^ (nr + (4 - nr) mod 4)) g = g" by (simp add: add.commute)
  then show "(turn ^^ nr) ((turn ^^ ((4 - nr) mod 4)) g) = g" by (simp add: funpow_add)
qed

lemma turns_inject:
  assumes "wf_grid a" "wf_grid b" "(turn ^^ k) a = (turn ^^ k) b" "k < 4"
  shows "a = b"
proof -
  have "(turn ^^ ((4 - k) mod 4)) ((turn ^^ k) a) = a"
    using assms(1,4) by (rule turn_back(1))
  moreover have "(turn ^^ ((4 - k) mod 4)) ((turn ^^ k) b) = b"
    using assms(2,4) by (rule turn_back(1))
  ultimately show ?thesis using assms(3) by metis
qed

lemma set_concat_turn: "wf_grid g \<Longrightarrow> set (concat (turn g)) = set (concat g)"
proof -
  assume w: "wf_grid g"
  obtain a0 a1 a2 a3 b0 b1 b2 b3 c0 c1 c2 c3 d0 d1 d2 d3 where
    g: "g = [[a0, a1, a2, a3], [b0, b1, b2, b3], [c0, c1, c2, c3], [d0, d1, d2, d3]]"
    using wf_grid_cells[OF w] by blast
  show ?thesis unfolding g turn_cells by auto
qed

lemma set_concat_turns: "wf_grid g \<Longrightarrow> set (concat ((turn ^^ n) g)) = set (concat g)"
proof (induction n)
  case 0
  then show ?case by simp
next
  case (Suc n)
  have "set (concat (turn ((turn ^^ n) g))) = set (concat ((turn ^^ n) g))"
    using Suc.prems by (intro set_concat_turn wf_grid_turns)
  then show ?case using Suc by simp
qed

lemma rotations_lt: "rotations d < 4"
  by (cases d) simp_all

lemma tags_ok_rotations: "tags_ok (rotations d) = (d = Left_dir)"
  by (cases d) (simp_all add: tags_ok_def)

lemma wf_grid_slide: "wf_grid g \<Longrightarrow> wf_grid (map spec_slide_row g)"
  by (simp add: wf_grid_def list_all_iff length_spec_slide_row TILE_COUNT_def)

lemma rows_loop_wf:
  assumes "wf_grid g"
  shows "rows_loop nr 0 \<lparr>currentGrid = g, scoreToAdd = 0, moved = False,
            mergedCells = {}, winSet = False\<rparr> =
     (if tags_ok nr \<or> grid_merge_values g = [] then
        Inr \<lparr>currentGrid = map spec_slide_row g,
             scoreToAdd = sum_list (grid_merge_values g),
             moved = (map spec_slide_row g \<noteq> g),
             mergedCells = grid_merge_cells 0 g,
             winSet = (2048 \<in> set (grid_merge_values g))\<rparr>
      else Inl (TypeError, hd (grid_merge_values g) = 2048))"
proof -
  from assms have "length g = 4" by (simp add: wf_grid_def TILE_COUNT_def)
  then obtain r0 r1 r2 r3 where g: "g = [r0, r1, r2, r3]" using list4 by blast
  with assms have "length r0 \<le> 4" "length r1 \<le> 4" "length r2 \<le> 4" "length r3 \<le> 4"
    by (simp_all add: wf_grid_def TILE_COUNT_def)
  then show ?thesis unfolding g by (rule rows_loop_eq)
qed

text \<open>The move without the spawn, on a grid of the game.\<close>

lemma slide_and_merge_wf:
  assumes "wf_grid g"
  shows "slide_and_merge d g =
     (if d = Left_dir \<or> grid_merge_values ((turn ^^ rotations d) g) = [] then
        Inr \<lparr>currentGrid =
               (turn ^^ ((4 - rotations d) mod 4)) (map spec_slide_row ((turn ^^ rotations d) g)),
             scoreToAdd = sum_list (grid_merge_values ((turn ^^ rotations d) g)),
             moved = (map spec_slide_row ((turn ^^ rotations d) g) \<noteq> (turn ^^ rotations d) g),
             mergedCells = grid_merge_cells 0 ((turn ^^ rotations d) g),
             winSet = (2048 \<in> set (grid_merge_values ((turn ^^ rotations d) g)))\<rparr>
      else Inl (TypeError, hd (grid_merge_values ((turn ^^ rotations d) g)) = 2048))"
proof -
  let ?g1 = "(turn ^^ rotations d) g"
  have w1: "wf_grid ?g1" using assms by (rule wf_grid_turns)
  have w2: "wf_grid (map spec_slide_row ?g1)" using w1 by (rule wf_grid_slide)
  show ?thesis
    by (simp add: slide_and_merge_def Let_def rotate_grid_wf[OF assms] rows_loop_wf[OF w1]
        rotate_grid_wf[OF w2] tags_ok_rotations)
qed

subsection \<open>What sliding does to one row\<close>

lemma spec_merge_row_nonzero: "0 \<notin> set xs \<Longrightarrow> 0 \<notin> set (spec_merge_row xs)"
  by (induction xs rule: spec_merge_row.induct) auto

lemma nonzero_cells_nonzero: "0 \<notin> set (nonzero_cells row)"
  by (simp add: nonzero_cells_def)

lemma nonzero_cells_id: "0 \<notin> set xs \<Longrightarrow> nonzero_cells xs = xs"
  by (auto simp: nonzero_cells_def filter_id_conv)

lemma nonzero_cells_pad: "0 \<notin> set m \<Longrightarrow> nonzero_cells (m @ replicate z 0) = m"
  by (auto simp: nonzero_cells_def filter_id_conv)

lemma nonzero_cells_slide:
  "nonzero_cells (spec_slide_row row) = spec_merge_row (nonzero_cells row)"
  by (simp add: spec_slide_row_def Let_def nonzero_cells_pad spec_merge_row_nonzero
      nonzero_cells_nonzero)

lemma merge_changes_row:
  assumes "spec_merge_values (nonzero_cells row) \<noteq> []"
  shows "spec_slide_row row \<noteq> row"
proof
  assume "spec_slide_row row = row"
  then have "nonzero_cells (spec_slide_row row) = nonzero_cells row" by simp
  then have "spec_merge_row (nonzero_cells row) = nonzero_cells row"
    by (simp add: nonzero_cells_slide)
  then show False using length_merge_lt[OF assms] by simp
qed

lemma changed_row_has_zero:
  assumes "length row = 4" "spec_slide_row row \<noteq> row"
  shows "0 \<in> set (spec_slide_row row)"
proof (rule ccontr)
  assume nz: "0 \<notin> set (spec_slide_row row)"
  let ?m = "spec_merge_row (nonzero_cells row)"
  have "replicate (4 - length ?m) (0::int) = []"
    using nz by (auto simp: spec_slide_row_def Let_def TILE_COUNT_def)
  then have m4: "4 \<le> length ?m" by simp
  have "length ?m \<le> length (nonzero_cells row)" by (rule length_spec_merge_row)
  with m4 assms(1) have full: "length (nonzero_cells row) = length row"
    using length_nonzero_cells[of row] by linarith
  then have id: "nonzero_cells row = row"
    unfolding nonzero_cells_def
    by (metis filter_True length_filter_less less_irrefl_nat)
  have "spec_merge_values (nonzero_cells row) = []"
    using length_merge_lt[of "nonzero_cells row"] m4 full assms(1) by fastforce
  then have "?m = row" using id by (simp add: no_merge_row)
  then have "spec_slide_row row = row"
    using assms(1) by (simp add: spec_slide_row_def Let_def TILE_COUNT_def)
  with assms(2) show False by simp
qed

lemma slide_row_twice:
  assumes "spec_merge_values (nonzero_cells (spec_slide_row row)) = []"
  shows "spec_slide_row (spec_slide_row row) = spec_slide_row row"
proof -
  let ?m = "spec_merge_row (nonzero_cells row)"
  have "spec_merge_row (nonzero_cells (spec_slide_row row)) = ?m"
    using assms by (simp add: no_merge_row nonzero_cells_slide)
  then have "spec_slide_row (spec_slide_row row) = ?m @ replicate (TILE_COUNT - length ?m) 0"
    unfolding spec_slide_row_def[of "spec_slide_row row"] by (simp add: Let_def)
  also have "\<dots> = spec_slide_row row" by (simp add: spec_slide_row_def Let_def)
  finally show ?thesis .
qed

lemma merge_values_adjacent:
  "spec_merge_values xs \<noteq> [] \<longleftrightarrow> (\<exists>i. Suc i < length xs \<and> xs ! i = xs ! Suc i)"
proof (induction xs rule: spec_merge_values.induct)
  case (1 x y xs)
  show ?case
  proof (cases "x = y")
    case True
    then have "Suc 0 < length (x # y # xs) \<and> (x # y # xs) ! 0 = (x # y # xs) ! Suc 0" by simp
    then show ?thesis using True by (simp del: length_Cons nth_Cons_Suc nth_Cons_0) blast
  next
    case False
    have "(\<exists>i. Suc i < length (x # y # xs) \<and> (x # y # xs) ! i = (x # y # xs) ! Suc i)
          \<longleftrightarrow> (\<exists>i. Suc i < length (y # xs) \<and> (y # xs) ! i = (y # xs) ! Suc i)" (is "?L \<longleftrightarrow> ?R")
    proof
      assume ?L
      then obtain i where i: "Suc i < length (x # y # xs)" "(x # y # xs) ! i = (x # y # xs) ! Suc i" by blast
      with False obtain j where "i = Suc j" by (cases i) auto
      with i show ?R by auto
    next
      assume ?R
      then obtain i where "Suc i < length (y # xs)" "(y # xs) ! i = (y # xs) ! Suc i" by blast
      then have "Suc (Suc i) < length (x # y # xs) \<and> (x # y # xs) ! Suc i = (x # y # xs) ! Suc (Suc i)" by simp
      then show ?L by blast
    qed
    then show ?thesis using False "1.IH"(2) by simp
  qed
qed simp_all

lemma adjacent_equal_iff:
  "adjacent_equal row \<longleftrightarrow> (\<exists>i. Suc i < length row \<and> row ! i \<noteq> 0 \<and> row ! i = row ! Suc i)"
  by (auto simp: adjacent_equal_def list_ex_iff less_diff_conv)

lemma adjacent_equal_pad:
  assumes "0 \<notin> set m"
  shows "adjacent_equal (m @ replicate z 0) \<longleftrightarrow> spec_merge_values m \<noteq> []"
proof -
  have "(\<exists>i. Suc i < length (m @ replicate z (0::int)) \<and> (m @ replicate z 0) ! i \<noteq> 0
            \<and> (m @ replicate z 0) ! i = (m @ replicate z 0) ! Suc i)
        \<longleftrightarrow> (\<exists>i. Suc i < length m \<and> m ! i = m ! Suc i)" (is "?L \<longleftrightarrow> ?R")
  proof
    assume ?L
    then obtain i where i: "Suc i < length (m @ replicate z (0::int))" "(m @ replicate z 0) ! i \<noteq> 0"
      "(m @ replicate z 0) ! i = (m @ replicate z 0) ! Suc i" by blast
    have a: "i < length m" using i(1,2) by (cases "i < length m") (auto simp: nth_append)
    have b: "Suc i < length m" using i a by (cases "Suc i < length m") (auto simp: nth_append)
    show ?R using i(3) a b by (auto simp: nth_append)
  next
    assume ?R
    then obtain i where i: "Suc i < length m" "m ! i = m ! Suc i" by blast
    then have "m ! i \<in> set m" by simp
    with assms have "m ! i \<noteq> 0" by metis
    with i show ?L by (intro exI[of _ i]) (auto simp: nth_append)
  qed
  then show ?thesis by (simp add: adjacent_equal_iff merge_values_adjacent)
qed

lemma adjacent_equal_slide:
  "adjacent_equal (spec_slide_row row) \<longleftrightarrow> spec_merge_values (nonzero_cells (spec_slide_row row)) \<noteq> []"
proof -
  have nz: "0 \<notin> set (spec_merge_row (nonzero_cells row))"
    by (simp add: spec_merge_row_nonzero nonzero_cells_nonzero)
  show ?thesis
    using adjacent_equal_pad[OF nz, of "TILE_COUNT - length (spec_merge_row (nonzero_cells row))"]
    by (simp add: nonzero_cells_slide) (simp add: spec_slide_row_def Let_def)
qed

lemma grid_merge_values_Nil:
  "grid_merge_values g = [] \<longleftrightarrow> (\<forall>row \<in> set g. spec_merge_values (nonzero_cells row) = [])"
  by (auto simp: grid_merge_values_def)

lemma grid_merge_cells_Nil: "grid_merge_values g = [] \<Longrightarrow> grid_merge_cells r g = {}"
  by (induction g arbitrary: r) (auto simp: grid_merge_values_def no_merge_positions)

lemma unchanged_no_merge: "map spec_slide_row g = g \<Longrightarrow> grid_merge_values g = []"
  unfolding grid_merge_values_Nil
  by (metis map_eq_conv map_ident merge_changes_row)

subsection \<open>Cells, grids and tiles\<close>

lemma cells_eq:
  "cells = [(0,0),(0,1),(0,2),(0,3),(1,0),(1,1),(1,2),(1,3),(2,0),(2,1),(2,2),(2,3),(3,0),(3,1),(3,2),(3,3)]"
  by (simp add: cells_def TILE_COUNT_def upt4)

lemma set_cells: "set cells = {(r, c). r < 4 \<and> c < 4}"
  by (auto simp: cells_def TILE_COUNT_def)

lemma distinct_cells: "distinct cells"
  by (simp add: cells_eq)

lemma wf_grid_nth: "wf_grid g \<Longrightarrow> r < 4 \<Longrightarrow> length (g ! r) = 4"
  by (simp add: wf_grid_def TILE_COUNT_def list_all_length)

lemma wf_grid_length: "wf_grid g \<Longrightarrow> length g = 4"
  by (simp add: wf_grid_def TILE_COUNT_def)

lemma in_wf_grid:
  assumes "wf_grid g"
  shows "x \<in> set (concat g) \<longleftrightarrow> (\<exists>r<4. \<exists>c<4. g ! r ! c = x)"
proof
  assume "x \<in> set (concat g)"
  then obtain row where row: "row \<in> set g" "x \<in> set row" by auto
  then obtain r where r: "r < length g" "g ! r = row" by (auto simp: in_set_conv_nth)
  from row(2) obtain c where c: "c < length row" "row ! c = x" by (auto simp: in_set_conv_nth)
  have "r < 4" using r(1) wf_grid_length[OF assms] by simp
  moreover have "c < 4" using c(1) r wf_grid_nth[OF assms \<open>r < 4\<close>] by simp
  ultimately show "\<exists>r<4. \<exists>c<4. g ! r ! c = x" using r c by blast
next
  assume "\<exists>r<4. \<exists>c<4. g ! r ! c = x"
  then obtain r c where rc: "r < 4" "c < 4" "g ! r ! c = x" by blast
  have "g ! r \<in> set g" using rc(1) wf_grid_length[OF assms] by simp
  moreover have "x \<in> set (g ! r)" using rc wf_grid_nth[OF assms rc(1)] by (metis nth_mem)
  ultimately show "x \<in> set (concat g)" by auto
qed

lemma emptyCells_wf:
  "wf_grid g \<Longrightarrow> emptyCells g = Inr (filter (\<lambda>(r, c). g ! r ! c = 0) cells)"
proof -
  assume w: "wf_grid g"
  have "filter (\<lambda>(r, c). c < length (g ! r) \<and> g ! r ! c = 0) cells
        = filter (\<lambda>(r, c). g ! r ! c = 0) cells"
    by (rule filter_cong) (auto simp: set_cells wf_grid_nth[OF w])
  then show ?thesis using wf_grid_length[OF w] by (simp add: emptyCells_def TILE_COUNT_def)
qed

lemma wf_grid_update:
  assumes "wf_grid g"
  shows "wf_grid (g[r := (g ! r)[c := v]])"
  using assms by (cases "r < length g") (auto simp: wf_grid_def list_all_length nth_list_update)

lemma grid_update_nth:
  assumes "wf_grid g" "r < 4" "c < 4" "r' < 4" "c' < 4"
  shows "g[r := (g ! r)[c := v]] ! r' ! c' = (if (r', c') = (r, c) then v else g ! r' ! c')"
  using assms wf_grid_length[OF assms(1)] wf_grid_nth[OF assms(1,2)]
  by (auto simp: nth_list_update)

lemma grid_fault_wf: "wf_grid g \<Longrightarrow> grid_fault g = None"
  by (auto simp: grid_fault_def wf_grid_def list_ex_iff list_all_iff dest: in_set_takeD)

lemma getGrid_loop_wf:
  "wf_grid G \<Longrightarrow> getGrid_loop tiles G = Inr g \<Longrightarrow> wf_grid g"
proof (induction tiles arbitrary: G)
  case Nil
  then show ?case by simp
next
  case (Cons tile tiles)
  then show ?case by (auto split: if_splits intro: wf_grid_update)
qed

lemma getGrid_wf: "getGrid tiles = Inr g \<Longrightarrow> wf_grid g"
proof -
  have "wf_grid (replicate TILE_COUNT (replicate TILE_COUNT (0::int)))"
    by (simp add: wf_grid_def TILE_COUNT_def list_all_iff)
  then show "getGrid tiles = Inr g \<Longrightarrow> wf_grid g"
    unfolding getGrid_def by (rule getGrid_loop_wf)
qed

lemma getGrid_loop_scan:
  assumes "wf_grid G" "set cs \<subseteq> set cells" "distinct cs"
  shows "\<exists>G'. getGrid_loop (fst (tiles_scan g p m cs n)) G = Inr G' \<and> wf_grid G'
           \<and> (\<forall>r c. r < 4 \<and> c < 4 \<longrightarrow>
                 G' ! r ! c = (if (r, c) \<in> set cs \<and> g ! r ! c \<noteq> 0 then g ! r ! c else G ! r ! c))"
  using assms
proof (induction cs arbitrary: G n)
  case Nil
  then show ?case by simp
next
  case (Cons rc cs)
  obtain r c where rc: "rc = (r, c)" by (cases rc)
  have in4: "r < 4" "c < 4" using Cons.prems(2) rc by (auto simp: set_cells)
  have sub: "set cs \<subseteq> set cells" "distinct cs" "(r, c) \<notin> set cs" using Cons.prems rc by auto
  show ?case
  proof (cases "g ! r ! c = 0")
    case True
    then show ?thesis using Cons.IH[OF Cons.prems(1) sub(1,2), of n] rc by auto
  next
    case False
    let ?G1 = "G[r := (G ! r)[c := g ! r ! c]]"
    have w1: "wf_grid ?G1" using Cons.prems(1) by (rule wf_grid_update)
    obtain G' where G': "getGrid_loop (fst (tiles_scan g p m cs (n + 1))) ?G1 = Inr G'" "wf_grid G'"
      "\<forall>r' c'. r' < 4 \<and> c' < 4 \<longrightarrow>
         G' ! r' ! c' = (if (r', c') \<in> set cs \<and> g ! r' ! c' \<noteq> 0 then g ! r' ! c' else ?G1 ! r' ! c')"
      using Cons.IH[OF w1 sub(1,2), of "n + 1"] by blast
    have step: "getGrid_loop (fst (tiles_scan g p m (rc # cs) n)) G = Inr G'"
      using False rc in4 G'(1) wf_grid_length[OF Cons.prems(1)] wf_grid_nth[OF Cons.prems(1) in4(1)]
      by (cases "tiles_scan g p m cs (n + 1)") simp
    have "G' ! r' ! c' = (if (r', c') \<in> set (rc # cs) \<and> g ! r' ! c' \<noteq> 0 then g ! r' ! c' else G ! r' ! c')"
      if "r' < 4" "c' < 4" for r' c'
      using G'(3) that rc sub(3) False grid_update_nth[OF Cons.prems(1) in4 that, of "g ! r ! c"]
      by auto
    then show ?thesis using step G'(2) by blast
  qed
qed

lemma wf_grid_eqI:
  assumes "wf_grid a" "wf_grid b" "\<And>r c. r < 4 \<Longrightarrow> c < 4 \<Longrightarrow> a ! r ! c = b ! r ! c"
  shows "a = b"
proof (rule nth_equalityI)
  show "length a = length b" using assms(1,2) by (simp add: wf_grid_length)
next
  fix r assume "r < length a"
  then have r: "r < 4" using wf_grid_length[OF assms(1)] by simp
  show "a ! r = b ! r"
  proof (rule nth_equalityI)
    show "length (a ! r) = length (b ! r)" using wf_grid_nth[OF assms(1) r] wf_grid_nth[OF assms(2) r] by simp
  next
    fix c assume "c < length (a ! r)"
    then have "c < 4" using wf_grid_nth[OF assms(1) r] by simp
    then show "a ! r ! c = b ! r ! c" using assms(3) r by blast
  qed
qed

lemma getGrid_transformToTileObjects:
  assumes "wf_grid g" "transformToTileObjects g p m n = Inr (tiles, n')"
  shows "getGrid tiles = Inr g"
proof -
  let ?Z = "replicate TILE_COUNT (replicate TILE_COUNT (0::int))"
  have wz: "wf_grid ?Z" by (simp add: wf_grid_def TILE_COUNT_def list_all_iff)
  have t: "tiles = fst (tiles_scan g p m cells n)"
    using assms(2) by (simp add: transformToTileObjects_def grid_fault_wf[OF assms(1)])
  obtain G' where G': "getGrid_loop tiles ?Z = Inr G'" "wf_grid G'"
    "\<forall>r c. r < 4 \<and> c < 4 \<longrightarrow>
       G' ! r ! c = (if (r, c) \<in> set cells \<and> g ! r ! c \<noteq> 0 then g ! r ! c else ?Z ! r ! c)"
    unfolding t using getGrid_loop_scan[OF wz subset_refl distinct_cells, of g p m n] by blast
  have "G' ! r ! c = g ! r ! c" if "r < 4" "c < 4" for r c
    using G'(3) that by (auto simp: TILE_COUNT_def set_cells)
  then have "G' = g" using G'(2) assms(1) by (intro wf_grid_eqI) auto
  then show ?thesis using G'(1) by (simp add: getGrid_def)
qed

subsection \<open>A changed grid has an empty cell\<close>

lemma wf_slide_result:
  assumes "wf_grid g" "slide_and_merge d g = Inr st"
  shows "wf_grid (currentGrid st)"
proof -
  have "wf_grid ((turn ^^ ((4 - rotations d) mod 4)) (map spec_slide_row ((turn ^^ rotations d) g)))"
    by (intro wf_grid_turns wf_grid_slide assms(1))
  then show ?thesis using assms(2) by (auto simp: slide_and_merge_wf[OF assms(1)] split: if_splits)
qed

lemma moved_has_zero:
  assumes "wf_grid g" "slide_and_merge d g = Inr st" "moved st"
  shows "0 \<in> set (concat (currentGrid st))"
proof -
  let ?g1 = "(turn ^^ rotations d) g"
  let ?k = "(4 - rotations d) mod 4"
  have w1: "wf_grid ?g1" using assms(1) by (rule wf_grid_turns)
  have w2: "wf_grid (map spec_slide_row ?g1)" using w1 by (rule wf_grid_slide)
  from assms(2,3) have cg: "currentGrid st = (turn ^^ ?k) (map spec_slide_row ?g1)"
    and mv: "map spec_slide_row ?g1 \<noteq> ?g1"
    by (auto simp: slide_and_merge_wf[OF assms(1)] split: if_splits)
  from mv obtain row where row: "row \<in> set ?g1" "spec_slide_row row \<noteq> row"
    by (metis map_idI)
  have "length row = 4" using row(1) w1 by (auto simp: wf_grid_def TILE_COUNT_def list_all_iff)
  then have "0 \<in> set (spec_slide_row row)" using row(2) by (rule changed_row_has_zero)
  then have "0 \<in> set (concat (map spec_slide_row ?g1))" using row(1) by auto
  then show ?thesis unfolding cg using set_concat_turns[OF w2] by simp
qed

lemma moved_has_empty_cells:
  assumes "wf_grid g" and "slide_and_merge d g = Inr st" and "moved st"
  shows "(\<exists>r c. r < 4 \<and> c < 4 \<and> currentGrid st ! r ! c = 0)
         \<and> (\<exists>ec. emptyCells (currentGrid st) = Inr ec \<and> ec \<noteq> [])"
proof -
  have w: "wf_grid (currentGrid st)" using assms(1,2) by (rule wf_slide_result)
  have "0 \<in> set (concat (currentGrid st))" using assms by (rule moved_has_zero)
  then obtain r c where rc: "r < 4" "c < 4" "currentGrid st ! r ! c = 0"
    using in_wf_grid[OF w] by blast
  then have "(r, c) \<in> set (filter (\<lambda>(r, c). currentGrid st ! r ! c = 0) cells)"
    by (simp add: set_cells)
  then have "filter (\<lambda>(r, c). currentGrid st ! r ! c = 0) cells \<noteq> []"
    by (metis empty_iff list.set(1))
  then show ?thesis using rc emptyCells_wf[OF w] by blast
qed

lemma moved_iff:
  assumes "wf_grid g" "slide_and_merge d g = Inr st"
  shows "moved st \<longleftrightarrow> currentGrid st \<noteq> g"
proof -
  let ?g1 = "(turn ^^ rotations d) g"
  let ?k = "(4 - rotations d) mod 4"
  have w1: "wf_grid ?g1" using assms(1) by (rule wf_grid_turns)
  have w2: "wf_grid (map spec_slide_row ?g1)" using w1 by (rule wf_grid_slide)
  from assms(2) have cg: "currentGrid st = (turn ^^ ?k) (map spec_slide_row ?g1)"
    and mv: "moved st \<longleftrightarrow> map spec_slide_row ?g1 \<noteq> ?g1"
    by (auto simp: slide_and_merge_wf[OF assms(1)] split: if_splits)
  have bk: "(turn ^^ ?k) ?g1 = g" using assms(1) rotations_lt by (rule turn_back(1))
  have klt: "?k < 4" by simp
  have "(turn ^^ ?k) (map spec_slide_row ?g1) = (turn ^^ ?k) ?g1 \<longleftrightarrow> map spec_slide_row ?g1 = ?g1"
    using turns_inject[OF w2 w1 _ klt] by auto
  then show ?thesis using cg mv bk by simp
qed

lemma unmoved_locals:
  assumes "wf_grid g" "slide_and_merge d g = Inr st" "\<not> moved st"
  shows "scoreToAdd st = 0 \<and> \<not> winSet st \<and> mergedCells st = {}
         \<and> grid_merge_values ((turn ^^ rotations d) g) = []"
proof -
  let ?g1 = "(turn ^^ rotations d) g"
  from assms(2,3) have "map spec_slide_row ?g1 = ?g1"
    by (auto simp: slide_and_merge_wf[OF assms(1)] split: if_splits)
  then have nm: "grid_merge_values ?g1 = []" by (rule unchanged_no_merge)
  then show ?thesis using assms(2)
    by (auto simp: slide_and_merge_wf[OF assms(1)] grid_merge_cells_Nil split: if_splits)
qed

text \<open>
  Claim C10. For every grid of the game and every direction, if the move without the
  spawn returns with \<open>moved\<close> set, the grid it returns has a cell equal to 0, so the
  list \<open>emptyCells\<close> that \<open>addRandomTile\<close> builds from it is not empty and the branch that
  adds no tile is not taken.
\<close>

theorem changed_grid_has_empty_cell:
  assumes "wf_grid g" and "slide_and_merge d g = Inr st"
  shows "(moved st \<longleftrightarrow> currentGrid st \<noteq> g)
         \<and> (moved st \<longrightarrow>
              (\<exists>r c. r < 4 \<and> c < 4 \<and> currentGrid st ! r ! c = 0)
              \<and> (\<exists>ec. emptyCells (currentGrid st) = Inr ec \<and> ec \<noteq> []))"
  using moved_iff[OF assms] moved_has_empty_cells[OF assms] by blast

theorem changed_grid_has_empty_cell_witness:
  "wf_grid [[2, 2, 4, 8], [2, 4, 2, 4], [4, 2, 4, 2], [2, 4, 2, 4 :: int]]
   \<and> slide_and_merge Left_dir [[2, 2, 4, 8], [2, 4, 2, 4], [4, 2, 4, 2], [2, 4, 2, 4]] =
       Inr \<lparr>currentGrid = [[4, 4, 8, 0], [2, 4, 2, 4], [4, 2, 4, 2], [2, 4, 2, 4]],
            scoreToAdd = 4, moved = True, mergedCells = {(0, 0)}, winSet = False\<rparr>
   \<and> emptyCells [[4, 4, 8, 0], [2, 4, 2, 4], [4, 2, 4, 2], [2, 4, 2, 4]] = Inr [(0, 3)]"
proof -
  have w: "wf_grid [[2, 2, 4, 8], [2, 4, 2, 4], [4, 2, 4, 2], [2, 4, 2, 4 :: int]]"
    by (simp add: wf_grid_def TILE_COUNT_def)
  have s: "slide_and_merge Left_dir [[2, 2, 4, 8], [2, 4, 2, 4], [4, 2, 4, 2], [2, 4, 2, 4]] =
       Inr \<lparr>currentGrid = [[4, 4, 8, 0], [2, 4, 2, 4], [4, 2, 4, 2], [2, 4, 2, 4]],
            scoreToAdd = 4, moved = True, mergedCells = {(0, 0)}, winSet = False\<rparr>"
    by code_simp
  have e: "emptyCells [[4, 4, 8, 0], [2, 4, 2, 4], [4, 2, 4, 2], [2, 4, 2, 4]] = Inr [(0, 3)]"
    by code_simp
  show ?thesis using changed_grid_has_empty_cell[OF w s] w s e by simp
qed

subsection \<open>A move that changes nothing\<close>

text \<open>
  Claim C4. For every board and every direction, if the move without the spawn returns
  a grid equal to the grid of the board before the move, then \<open>move\<close> is a no-op: it
  returns without a fault and leaves the whole state as it was (the tiles of the board,
  the score, the best score and its stored copy, the flags \<open>isGameOver\<close> and \<open>isWin\<close>), so
  no tile is added and the game-over check is not run.
\<close>

theorem unchanged_grid_is_noop:
  assumes "getGrid (board s) = Inr g" and "slide_and_merge d g = Inr st"
    and "currentGrid st = g"
  shows "move s d u1 u2 = (None, s) \<and> \<not> moved st \<and> scoreToAdd st = 0 \<and> \<not> winSet st"
proof -
  have w: "wf_grid g" using assms(1) by (rule getGrid_wf)
  have nm: "\<not> moved st" using moved_iff[OF w assms(2)] assms(3) by simp
  have u: "scoreToAdd st = 0 \<and> \<not> winSet st" using unmoved_locals[OF w assms(2) nm] by simp
  have "move s d u1 u2 = (None, s)" using assms(1,2) nm u by (simp add: move_def)
  then show ?thesis using nm u by simp
qed

theorem unchanged_grid_is_noop_witness:
  "getGrid [\<lparr>tile_value = 8, tile_x = 0, tile_y = 0, tile_id = 37,
              isNew = False, isMerged = False\<rparr>,
            \<lparr>tile_value = 4, tile_x = 1, tile_y = 0, tile_id = 38,
              isNew = False, isMerged = False\<rparr>,
            \<lparr>tile_value = 2, tile_x = 0, tile_y = 2, tile_id = 39,
              isNew = False, isMerged = False\<rparr>] =
       Inr [[8, 4, 0, 0], [0, 0, 0, 0], [2, 0, 0, 0], [0, 0, 0, 0]]
   \<and> slide_and_merge Left_dir [[8, 4, 0, 0], [0, 0, 0, 0], [2, 0, 0, 0], [0, 0, 0, 0]] =
       Inr \<lparr>currentGrid = [[8, 4, 0, 0], [0, 0, 0, 0], [2, 0, 0, 0], [0, 0, 0, 0]],
            scoreToAdd = 0, moved = False, mergedCells = {}, winSet = False\<rparr>
   \<and> move \<lparr>board = [\<lparr>tile_value = 8, tile_x = 0, tile_y = 0, tile_id = 37,
                                  isNew = False, isMerged = False\<rparr>,
                     \<lparr>tile_value = 4, tile_x = 1, tile_y = 0, tile_id = 38,
                       isNew = False, isMerged = False\<rparr>,
                     \<lparr>tile_value = 2, tile_x = 0, tile_y = 2, tile_id = 39,
                       isNew = False, isMerged = False\<rparr>],
            idCounter = 40, score = 700, bestScore = Num 900, stored = Some (utf16 ''900''),
            isGameOver = False, isWin = False\<rparr> Left_dir (1 / 2) (1 / 2) =
       (None, \<lparr>board = [\<lparr>tile_value = 8, tile_x = 0, tile_y = 0, tile_id = 37,
                                 isNew = False, isMerged = False\<rparr>,
                     \<lparr>tile_value = 4, tile_x = 1, tile_y = 0, tile_id = 38,
                       isNew = False, isMerged = False\<rparr>,
                     \<lparr>tile_value = 2, tile_x = 0, tile_y = 2, tile_id = 39,
                       isNew = False, isMerged = False\<rparr>],
            idCounter = 40, score = 700, bestScore = Num 900, stored = Some (utf16 ''900''),
            isGameOver = False, isWin = False\<rparr>)"
proof -
  let ?b = "[\<lparr>tile_value = 8, tile_x = 0, tile_y = 0, tile_id = 37,
               isNew = False, isMerged = False\<rparr>,
            \<lparr>tile_value = 4, tile_x = 1, tile_y = 0, tile_id = 38,
              isNew = False, isMerged = False\<rparr>,
            \<lparr>tile_value = 2, tile_x = 0, tile_y = 2, tile_id = 39,
              isNew = False, isMerged = False\<rparr>]"
  let ?g = "[[8, 4, 0, 0], [0, 0, 0, 0], [2, 0, 0, 0], [0, 0, 0, 0 :: int]]"
  let ?s = "\<lparr>board = ?b, idCounter = 40, score = 700, bestScore = Num 900, stored = Some (utf16 ''900''),
            isGameOver = False, isWin = False\<rparr>"
  let ?st = "\<lparr>currentGrid = ?g, scoreToAdd = 0, moved = False, mergedCells = {}, winSet = False\<rparr>"
  have gg: "getGrid (board ?s) = Inr ?g" by code_simp
  have sl: "slide_and_merge Left_dir ?g = Inr ?st" by code_simp
  have e: "currentGrid ?st = ?g" by simp
  show ?thesis using unchanged_grid_is_noop[OF gg sl e, of "1 / 2" "1 / 2"] gg sl by simp
qed

subsection \<open>The spawn\<close>

lemma rat_bitlen_bounds:
  assumes "0 < a"
  shows "(2::rat) powi (bitlen a - 1) \<le> of_int a" "of_int a < (2::rat) powi (bitlen a)"
proof -
  have b1: "1 \<le> bitlen a" using assms bitlen_eq_zero_iff[of a] bitlen_nonneg[of a] by linarith
  have "(2::int) ^ nat (bitlen a - 1) \<le> a" "a < 2 ^ nat (bitlen a)"
    using bitlen_bounds[OF assms] by simp_all
  then have "(of_int ((2::int) ^ nat (bitlen a - 1)) :: rat) \<le> of_int a"
    "(of_int a :: rat) < of_int (2 ^ nat (bitlen a))"
    by (simp_all only: of_int_le_iff of_int_less_iff)
  then show "(2::rat) powi (bitlen a - 1) \<le> of_int a" "of_int a < (2::rat) powi (bitlen a)"
    using b1 by (simp_all add: power_int_def)
qed

lemma floor_log2_bounds:
  assumes "0 < x"
  shows "2 powi (floor_log2 x) \<le> x" "x < 2 powi (floor_log2 x + 1)"
proof -
  obtain a b where q: "quotient_of x = (a, b)" by (cases "quotient_of x")
  have b: "0 < b" using quotient_of_denom_pos[OF q] .
  have x: "x = of_int a / of_int b" using quotient_of_div[OF q] .
  have a: "0 < a" using assms b unfolding x by (simp add: zero_less_divide_iff)
  define d where "d = bitlen a - bitlen b"
  have lo: "(2::rat) powi (d - 1) \<le> x"
  proof -
    have "(2::rat) powi (d - 1) * of_int b \<le> 2 powi (d - 1) * 2 powi (bitlen b)"
      using rat_bitlen_bounds(2)[OF b] by (simp add: mult_left_mono)
    also have "\<dots> = 2 powi (bitlen a - 1)"
      by (simp add: d_def power_int_add[symmetric])
    also have "\<dots> \<le> of_int a" using rat_bitlen_bounds(1)[OF a] .
    finally show ?thesis using b unfolding x by (simp add: pos_le_divide_eq)
  qed
  have hi: "x < (2::rat) powi (d + 1)"
  proof -
    have "(of_int a :: rat) < 2 powi (bitlen a)" using rat_bitlen_bounds(2)[OF a] .
    also have "\<dots> = 2 powi (d + 1) * 2 powi (bitlen b - 1)"
      by (simp add: d_def power_int_add[symmetric])
    also have "\<dots> \<le> 2 powi (d + 1) * of_int b"
      using rat_bitlen_bounds(1)[OF b] by (simp add: mult_left_mono)
    finally show ?thesis using b unfolding x by (simp add: pos_divide_less_eq)
  qed
  have f: "floor_log2 x = (if 2 powi d \<le> x then d else d - 1)"
    by (simp add: floor_log2_def q d_def Let_def)
  show "2 powi (floor_log2 x) \<le> x" using lo by (simp add: f)
  show "x < 2 powi (floor_log2 x + 1)" using hi by (auto simp: f)
qed

lemma power_int_2_less_imp:
  assumes "(2::rat) powi e < 2 powi f"
  shows "e < f"
proof (rule ccontr)
  assume "\<not> e < f"
  then have "f \<le> e" by simp
  then have "(2::rat) powi f \<le> 2 powi e" by (intro power_int_increasing) simp_all
  then show False using assms by simp
qed

lemma floor_log2_unique:
  assumes "2 powi e \<le> x" "x < 2 powi (e + 1)"
  shows "floor_log2 x = e"
proof -
  have p: "0 < x" using assms(1) zero_less_power_int[of "2::rat" e] by linarith
  note b = floor_log2_bounds[OF p]
  have "(2::rat) powi e < 2 powi (floor_log2 x + 1)" using assms(1) b(2) by linarith
  then have 1: "e < floor_log2 x + 1" by (rule power_int_2_less_imp)
  have "(2::rat) powi (floor_log2 x) < 2 powi (e + 1)" using assms(2) b(1) by linarith
  then have 2: "floor_log2 x < e + 1" by (rule power_int_2_less_imp)
  show ?thesis using 1 2 by linarith
qed

lemma round_half_even_bounds:
  "\<bar>of_int (round_half_even y) - y\<bar> \<le> 1 / 2"
proof -
  have "of_int \<lfloor>y\<rfloor> \<le> y" "y < of_int \<lfloor>y\<rfloor> + 1" by linarith+
  then show ?thesis by (auto simp: round_half_even_def Let_def)
qed

lemma round_half_even_nonneg:
  "0 \<le> y \<Longrightarrow> 0 \<le> round_half_even y"
  by (auto simp: round_half_even_def Let_def)

lemma binary64_upper_half:
  assumes "is_binary64 u" "1 / 2 \<le> u" "u < 1"
  shows "\<exists>k. u = of_int k / 2 ^ 53"
proof -
  have fl: "floor_log2 u = - 1"
    using assms(2,3) by (intro floor_log2_unique) (simp_all add: power_int_minus)
  have u0: "u \<noteq> 0" "\<bar>u\<bar> = u" using assms(2) by simp_all
  define k where "k = round_half_even (u / 2 powi (- 53))"
  have "binary64_round u = of_int k * 2 powi (- 53)"
    using u0 by (simp add: binary64_round_def fl k_def Let_def)
  then have "u = of_int k / 2 ^ 53"
    using assms(1) by (simp add: is_binary64_def power_int_minus field_simps)
  then show ?thesis ..
qed

lemma binary64_below_one:
  assumes "is_binary64 u" "0 \<le> u" "u < 1"
  shows "u \<le> 1 - 1 / 2 ^ 53"
proof (cases "u < 1 / 2")
  case True
  then show ?thesis by simp
next
  case False
  then have h: "1 / 2 \<le> u" by simp
  obtain k where u: "u = of_int k / 2 ^ 53" using binary64_upper_half[OF assms(1) h assms(3)] ..
  have "of_int k < (2::rat) ^ 53" using assms(3) unfolding u by (simp add: field_simps)
  then have "(of_int k :: rat) < of_int (2 ^ 53)" by simp
  then have "k < 2 ^ 53" by (simp only: of_int_less_iff)
  then have "k \<le> 2 ^ 53 - 1" by simp
  then have "(of_int k :: rat) \<le> of_int (2 ^ 53 - 1)" by (simp only: of_int_le_iff)
  then show ?thesis unfolding u by (simp add: field_simps)
qed

lemma binary64_nine_tenths: "binary64_round (9 / 10) = 8106479329266893 / 9007199254740992"
  by code_simp

lemma random_below_nine_tenths:
  assumes "is_random u"
  shows "u < binary64_round (9 / 10) \<longleftrightarrow> u < 9 / 10"
proof (cases "u < 1 / 2")
  case True
  then show ?thesis by (simp add: binary64_nine_tenths)
next
  case False
  then have h: "1 / 2 \<le> u" by simp
  have b: "is_binary64 u" "u < 1" using assms by (simp_all add: is_random_def)
  obtain k where u: "u = of_int k / 2 ^ 53" using binary64_upper_half[OF b(1) h b(2)] ..
  have "u < binary64_round (9 / 10) \<longleftrightarrow> (of_int k :: rat) < of_int 8106479329266893"
    unfolding u binary64_nine_tenths by (simp add: field_simps)
  also have "\<dots> \<longleftrightarrow> k < 8106479329266893" by (simp only: of_int_less_iff)
  also have "\<dots> \<longleftrightarrow> 10 * k < 81064793292668928" by presburger
  also have "\<dots> \<longleftrightarrow> (of_int (10 * k) :: rat) < of_int 81064793292668928" by (simp only: of_int_less_iff)
  also have "\<dots> \<longleftrightarrow> u < 9 / 10" unfolding u by (simp add: field_simps)
  finally show ?thesis .
qed

lemma binary64_round_upper:
  assumes "0 < x"
  shows "binary64_round x \<le> x + x / 2 ^ 53 \<or> binary64_round x \<le> x + 1 / 2 ^ 1075"
    and "0 \<le> binary64_round x"
proof -
  define e where "e = max (floor_log2 x) (- 1022)"
  define q :: rat where "q = 2 powi (e - 52)"
  have q0: "0 < q" by (simp add: q_def)
  have x0: "x \<noteq> 0" "\<bar>x\<bar> = x" using assms by simp_all
  have r: "binary64_round x = of_int (round_half_even (x / q)) * q"
    using x0 by (simp add: binary64_round_def e_def q_def Let_def)
  have "of_int (round_half_even (x / q)) \<le> x / q + 1 / 2"
    using round_half_even_bounds[of "x / q"] by linarith
  then have "of_int (round_half_even (x / q)) * q \<le> (x / q + 1 / 2) * q"
    using q0 by (simp add: mult_right_mono)
  moreover have "(x / q + 1 / 2) * q = x + q / 2"
    using q0 by (simp add: field_simps)
  ultimately have up: "binary64_round x \<le> x + q / 2"
    by (simp only: r)
  show "0 \<le> binary64_round x"
    using round_half_even_nonneg[of "x / q"] assms q0 by (simp add: r)
  show "binary64_round x \<le> x + x / 2 ^ 53 \<or> binary64_round x \<le> x + 1 / 2 ^ 1075"
  proof (cases "- 1022 \<le> floor_log2 x")
    case True
    then have "e = floor_log2 x" by (simp add: e_def)
    then have "q = 2 powi (floor_log2 x) / 2 ^ 52"
      by (simp add: q_def power_int_diff)
    then have "q \<le> x / 2 ^ 52" using floor_log2_bounds(1)[OF assms] by (simp add: divide_right_mono)
    then show ?thesis using up by simp
  next
    case False
    then have "e = - 1022" by (simp add: e_def)
    then have "q = 1 / 2 ^ 1074" by (simp add: q_def power_int_minus field_simps)
    then show ?thesis using up by simp
  qed
qed

lemma random_index_in_range:
  assumes "is_random u" "0 < n"
  shows "0 \<le> \<lfloor>binary64_round (u * of_nat n)\<rfloor> \<and> \<lfloor>binary64_round (u * of_nat n)\<rfloor> < int n"
proof (cases "u = 0")
  case True
  then show ?thesis using assms(2) by (simp add: binary64_round_def)
next
  case False
  have r: "is_binary64 u" "0 \<le> u" "u < 1" using assms(1) by (simp_all add: is_random_def)
  define x where "x = u * of_nat n"
  have n1: "(1::rat) \<le> of_nat n" using assms(2) by simp
  have x0: "0 < x" using False r(2) assms(2) by (simp add: x_def)
  have ub: "u \<le> 1 - 1 / 2 ^ 53" using binary64_below_one[OF r] .
  have xn: "x \<le> of_nat n * (1 - 1 / 2 ^ 53)"
    unfolding x_def using ub n1 by (simp add: mult.commute mult_left_mono)
  have lt: "binary64_round x < of_nat n"
  proof -
    from binary64_round_upper(1)[OF x0] show ?thesis
    proof
      assume "binary64_round x \<le> x + x / 2 ^ 53"
      then have "binary64_round x \<le> x * (1 + 1 / 2 ^ 53)" by (simp add: algebra_simps)
      also have "\<dots> \<le> of_nat n * (1 - 1 / 2 ^ 53) * (1 + 1 / 2 ^ 53)"
        using xn by (simp add: mult_right_mono)
      also have "\<dots> = of_nat n * (1 - 1 / 2 ^ 106)" by (simp add: algebra_simps)
      also have "\<dots> < of_nat n" using assms(2) by simp
      finally show ?thesis .
    next
      assume a: "binary64_round x \<le> x + 1 / 2 ^ 1075"
      have "x \<le> of_nat n - of_nat n / 2 ^ 53" using xn by (simp add: algebra_simps)
      moreover have "(1::rat) / 2 ^ 1075 < 1 / 2 ^ 53" by simp
      moreover have "(1::rat) / 2 ^ 53 \<le> of_nat n / 2 ^ 53" using n1 by (simp add: divide_right_mono)
      ultimately show ?thesis using a by linarith
    qed
  qed
  have "0 \<le> \<lfloor>binary64_round x\<rfloor>" using binary64_round_upper(2)[OF x0] by simp
  moreover have "\<lfloor>binary64_round x\<rfloor> < int n" using lt by (simp add: floor_less_iff)
  ultimately show ?thesis by (simp add: x_def)
qed

lemma round_half_even_of_int: "round_half_even (of_int j) = j"
  by (simp add: round_half_even_def)

lemma binary64_round_of_int: "\<exists>k. binary64_round (of_int m) = of_int k"
proof (cases "m = 0")
  case True
  then show ?thesis by (simp add: binary64_round_def)
next
  case False
  define x :: rat where "x = \<bar>of_int m\<bar>"
  have "1 \<le> \<bar>m\<bar>" using False by simp
  then have "(of_int 1 :: rat) \<le> of_int \<bar>m\<bar>" by (simp only: of_int_le_iff)
  then have x1: "1 \<le> x" by (simp add: x_def)
  then have p: "0 < x" by simp
  have "(2::rat) powi 0 < 2 powi (floor_log2 x + 1)"
    using floor_log2_bounds(2)[OF p] x1 by simp
  then have "0 < floor_log2 x + 1" by (rule power_int_2_less_imp)
  then have e: "max (floor_log2 x) (- 1022) = floor_log2 x" "0 \<le> floor_log2 x" by simp_all
  define e where "e = floor_log2 x"
  have r: "binary64_round (of_int m) = of_int (round_half_even (of_int m / 2 powi (e - 52))) * 2 powi (e - 52)"
    using False e(1) by (simp add: binary64_round_def x_def[symmetric] e_def Let_def)
  show ?thesis
  proof (cases "52 \<le> e")
    case True
    then have "(2::rat) powi (e - 52) = of_int (2 ^ nat (e - 52))"
      by (simp add: power_int_def)
    then have "binary64_round (of_int m) =
        of_int (round_half_even (of_int m / 2 powi (e - 52)) * 2 ^ nat (e - 52))"
      unfolding r by simp
    then show ?thesis ..
  next
    case False
    then have q: "(2::rat) powi (e - 52) = 1 / 2 ^ nat (52 - e)"
      by (simp add: power_int_def field_simps nat_diff_distrib)
    have "of_int m / (2::rat) powi (e - 52) = of_int (m * 2 ^ nat (52 - e))"
      unfolding q by simp
    then have "binary64_round (of_int m) = of_int (m * 2 ^ nat (52 - e)) * (1 / 2 ^ nat (52 - e))"
      unfolding r by (simp only: round_half_even_of_int q)
    then have "binary64_round (of_int m) = of_int m" by simp
    then show ?thesis ..
  qed
qed

lemma round_half_even_floor: "\<lfloor>y\<rfloor> \<le> round_half_even y"
  by (simp add: round_half_even_def Let_def)

lemma binary64_round_floor:
  assumes "0 < x" "x < 2 ^ 53"
  shows "of_int \<lfloor>x\<rfloor> \<le> binary64_round x" "binary64_round x < of_int \<lfloor>x\<rfloor> + 2"
proof -
  define e where "e = max (floor_log2 x) (- 1022)"
  define q :: rat where "q = 2 powi (e - 52)"
  define N :: int where "N = 2 ^ nat (52 - e)"
  have "(2::rat) powi (floor_log2 x) < 2 powi 53"
    using floor_log2_bounds(1)[OF assms(1)] assms(2) by simp
  then have "floor_log2 x < 53" by (rule power_int_2_less_imp)
  then have e52: "e \<le> 52" by (simp add: e_def)
  have q0: "0 < q" by (simp add: q_def)
  have qN: "q = 1 / of_int N"
    using e52 by (simp add: q_def N_def power_int_def field_simps nat_diff_distrib)
  have N0: "0 < N" by (simp add: N_def)
  have x0: "x \<noteq> 0" "\<bar>x\<bar> = x" using assms(1) by simp_all
  have r: "binary64_round x = of_int (round_half_even (x / q)) * q"
    using x0 by (simp add: binary64_round_def e_def q_def Let_def)
  have "of_int (\<lfloor>x\<rfloor> * N) \<le> x / q"
  proof -
    have "of_int \<lfloor>x\<rfloor> * (of_int N :: rat) \<le> x * of_int N"
      using N0 by (intro mult_right_mono) simp_all
    then show ?thesis by (simp add: qN)
  qed
  then have "\<lfloor>x\<rfloor> * N \<le> \<lfloor>x / q\<rfloor>" by (simp only: le_floor_iff)
  then have "\<lfloor>x\<rfloor> * N \<le> round_half_even (x / q)" using round_half_even_floor[of "x / q"] by linarith
  then have "(of_int (\<lfloor>x\<rfloor> * N) :: rat) \<le> of_int (round_half_even (x / q))" by (simp only: of_int_le_iff)
  then have "(of_int (\<lfloor>x\<rfloor> * N) :: rat) * q \<le> of_int (round_half_even (x / q)) * q"
    using q0 by (intro mult_right_mono) simp_all
  moreover have "(of_int (\<lfloor>x\<rfloor> * N) :: rat) * q = of_int \<lfloor>x\<rfloor>" using N0 by (simp add: qN)
  ultimately show "of_int \<lfloor>x\<rfloor> \<le> binary64_round x" by (simp only: r)
  have "x / 2 ^ 53 < 1" using assms(2) by simp
  moreover have "(1::rat) / 2 ^ 1075 < 1" by simp
  ultimately have "binary64_round x < x + 1" using binary64_round_upper(1)[OF assms(1)] by linarith
  moreover have "x < of_int \<lfloor>x\<rfloor> + 1" by linarith
  ultimately show "binary64_round x < of_int \<lfloor>x\<rfloor> + 2" by linarith
qed

lemma random_index_near:
  assumes "is_random u" "0 < n" "n \<le> 16"
  shows "\<lfloor>binary64_round (u * of_nat n)\<rfloor> = \<lfloor>u * of_nat n\<rfloor>
         \<or> \<lfloor>binary64_round (u * of_nat n)\<rfloor> = \<lfloor>u * of_nat n\<rfloor> + 1"
proof (cases "u = 0")
  case True
  then show ?thesis by (simp add: binary64_round_def)
next
  case False
  have r: "0 \<le> u" "u < 1" using assms(1) by (simp_all add: is_random_def)
  define x where "x = u * of_nat n"
  have x0: "0 < x" using False r(1) assms(2) by (simp add: x_def)
  have "x < of_nat n" using r(2) assms(2) by (simp add: x_def)
  moreover have "(of_nat n :: rat) \<le> of_nat 16" using assms(3) by (simp only: of_nat_le_iff)
  ultimately have x53: "x < 2 ^ 53" by simp
  note b = binary64_round_floor[OF x0 x53]
  have "\<lfloor>x\<rfloor> \<le> \<lfloor>binary64_round x\<rfloor>" using b(1) by (simp only: le_floor_iff)
  moreover have "binary64_round x < of_int (\<lfloor>x\<rfloor> + 2)" using b(2) by simp
  then have "\<lfloor>binary64_round x\<rfloor> < \<lfloor>x\<rfloor> + 2" by (simp only: floor_less_iff)
  ultimately show ?thesis unfolding x_def by linarith
qed

lemma addRandomTile_wf:
  assumes "wf_grid g" "emptyCells g = Inr ec" "ec \<noteq> []" "is_random u1"
  shows "\<exists>r c. ec ! nat \<lfloor>binary64_round (u1 * of_nat (length ec))\<rfloor> = (r, c)
           \<and> 0 \<le> \<lfloor>binary64_round (u1 * of_nat (length ec))\<rfloor>
           \<and> nat \<lfloor>binary64_round (u1 * of_nat (length ec))\<rfloor> < length ec
           \<and> r < 4 \<and> c < 4 \<and> g ! r ! c = 0
           \<and> addRandomTile g u1 u2 =
               Inr (g[r := (g ! r)[c := (if u2 < binary64_round (9 / 10) then 2 else 4)]])"
proof -
  let ?k = "\<lfloor>binary64_round (u1 * of_nat (length ec))\<rfloor>"
  have n: "0 < length ec" using assms(3) by simp
  have k: "0 \<le> ?k \<and> ?k < int (length ec)" using assms(4) n by (rule random_index_in_range)
  then have kn: "nat ?k < length ec" by linarith
  obtain r c where rc: "ec ! nat ?k = (r, c)" by (cases "ec ! nat ?k")
  have ec: "ec = filter (\<lambda>(r, c). g ! r ! c = 0) cells"
    using assms(2) emptyCells_wf[OF assms(1)] by simp
  have "(r, c) \<in> set ec" using kn rc by (metis nth_mem)
  then have p: "r < 4 \<and> c < 4 \<and> g ! r ! c = 0" unfolding ec by (auto simp: set_cells)
  have "addRandomTile g u1 u2 =
      Inr (g[r := (g ! r)[c := (if u2 < binary64_round (9 / 10) then 2 else 4)]])"
    using assms(2) n k rc by (simp add: addRandomTile_def Let_def)
  then show ?thesis using rc kn k p by blast
qed

lemma emptyCells_set:
  assumes "wf_grid g" "emptyCells g = Inr ec"
  shows "distinct ec \<and> set ec = {(r, c). r < 4 \<and> c < 4 \<and> g ! r ! c = 0}"
proof -
  have ec: "ec = filter (\<lambda>(r, c). g ! r ! c = 0) cells"
    using assms(2) emptyCells_wf[OF assms(1)] by simp
  show ?thesis unfolding ec using distinct_cells by (auto simp: set_cells)
qed

lemma emptyCells_length:
  assumes "wf_grid g" "emptyCells g = Inr ec"
  shows "length ec \<le> 16"
proof -
  have ec: "ec = filter (\<lambda>(r, c). g ! r ! c = 0) cells"
    using assms(2) emptyCells_wf[OF assms(1)] by simp
  have "length ec \<le> length cells" unfolding ec by (rule length_filter_le)
  then show ?thesis by (simp add: cells_eq)
qed

lemma move_changed:
  assumes "getGrid (board s) = Inr g" "\<not> (isGameOver s \<and> \<not> isWin s)"
    "slide_and_merge d g = Inr st" "moved st"
    "addRandomTile (currentGrid st) u1 u2 = Inr g2" "wf_grid g2"
  shows "fst (move s d u1 u2) = None \<and> getGrid (board (snd (move s d u1 u2))) = Inr g2
         \<and> score (snd (move s d u1 u2)) = score s + scoreToAdd st
         \<and> isWin (snd (move s d u1 u2)) = (isWin s \<or> winSet st)"
proof -
  have wg: "wf_grid g" using assms(1) by (rule getGrid_wf)
  have w: "wf_grid (currentGrid st)" using wg assms(3) by (rule wf_slide_result)
  let ?p = "find (\<lambda>(r, c). currentGrid st ! r ! c = 0 \<and> g2 ! r ! c \<noteq> 0) cells"
  have f: "findNewTilePos (currentGrid st) g2 = Inr ?p"
    by (simp add: findNewTilePos_def grid_fault_wf[OF w] grid_fault_wf[OF assms(6)])
  obtain tiles n' where t: "transformToTileObjects g2 ?p (Some (mergedCells st)) (idCounter s)
      = Inr (tiles, n')"
    by (cases "tiles_scan g2 ?p (Some (mergedCells st)) cells (idCounter s)")
      (simp add: transformToTileObjects_def grid_fault_wf[OF assms(6)])
  have gt: "getGrid tiles = Inr g2" using assms(6) t by (rule getGrid_transformToTileObjects)
  have c: "checkGameOver g2 = Inr (game_over_scan g2 cells)"
    by (simp add: checkGameOver_def grid_fault_wf[OF assms(6)])
  have ne: "\<not> (isGameOver s \<and> \<not> isWin s)" using assms(2) .
  show ?thesis using assms(1,3,4,5) f t gt c by (simp add: move_def Let_def if_not_P[OF ne])
qed

text \<open>
  Claim C7. After every move that changes the grid, exactly one cell that was empty
  after the slide and merge becomes nonzero, for all results \<open>u1\<close> and \<open>u2\<close> of the two
  calls of \<open>Math.random()\<close>. The cell is an entry of \<open>emptyCells\<close>, the list of the empty
  cells: the entry at the index \<open>k\<close> that is the floor of the rounded product of \<open>u1\<close> and
  the number \<open>n\<close> of empty cells. This index lies in the list; it is the floor of the
  exact product or, where rounding lifts the product to the next integer, one more. The
  value of the new tile is 2 when \<open>u2 < 9 / 10\<close> and 4 otherwise, the comparison with
  the literal \<open>0.9\<close> deciding the same for every binary64 number. Every other cell keeps
  the value it had after the slide and merge, and the score grows by the sum of the
  values the merges of the move produce. The grid after the move is the one \<open>getGrid\<close>
  reads from the new board.
\<close>

theorem changing_move_adds_one_tile:
  assumes "getGrid (board s) = Inr g" and "\<not> (isGameOver s \<and> \<not> isWin s)"
    and "slide_and_merge d g = Inr st" and "currentGrid st \<noteq> g"
    and "rotate_grid g (rotations d) = Inr g1"
    and "emptyCells (currentGrid st) = Inr ec"
    and "is_random u1" and "is_random u2"
  shows "fst (move s d u1 u2) = None
    \<and> ec \<noteq> [] \<and> distinct ec \<and> set ec = {(r, c). r < 4 \<and> c < 4 \<and> currentGrid st ! r ! c = 0}
    \<and> (\<exists>k r c v. int k = \<lfloor>binary64_round (u1 * of_nat (length ec))\<rfloor> \<and> k < length ec
          \<and> (int k = \<lfloor>u1 * of_nat (length ec)\<rfloor> \<or> int k = \<lfloor>u1 * of_nat (length ec)\<rfloor> + 1)
          \<and> ec ! k = (r, c) \<and> r < 4 \<and> c < 4 \<and> currentGrid st ! r ! c = 0
          \<and> v = (if u2 < 9 / 10 then 2 else 4)
          \<and> getGrid (board (snd (move s d u1 u2))) =
                Inr ((currentGrid st)[r := (currentGrid st ! r)[c := v]])
          \<and> (currentGrid st)[r := (currentGrid st ! r)[c := v]] ! r ! c = v
          \<and> (\<forall>r' c'. r' < 4 \<and> c' < 4 \<and> (r', c') \<noteq> (r, c) \<longrightarrow>
                (currentGrid st)[r := (currentGrid st ! r)[c := v]] ! r' ! c'
                  = currentGrid st ! r' ! c'))
    \<and> score (snd (move s d u1 u2)) = score s + sum_list (grid_merge_values g1)"
proof -
  have wg: "wf_grid g" using assms(1) by (rule getGrid_wf)
  have mv: "moved st" using moved_iff[OF wg assms(3)] assms(4) by simp
  have w: "wf_grid (currentGrid st)" using wg assms(3) by (rule wf_slide_result)
  have ne: "ec \<noteq> []" using moved_has_empty_cells[OF wg assms(3) mv] assms(6) by auto
  have n: "0 < length ec" using ne by simp
  have n16: "length ec \<le> 16" using w assms(6) by (rule emptyCells_length)
  define k where "k = nat \<lfloor>binary64_round (u1 * of_nat (length ec))\<rfloor>"
  define v :: int where "v = (if u2 < 9 / 10 then 2 else 4)"
  have v': "(if u2 < binary64_round (9 / 10) then 2 else 4) = v"
    using random_below_nine_tenths[OF assms(8)] by (simp add: v_def)
  obtain r c where rc: "ec ! k = (r, c)" "0 \<le> \<lfloor>binary64_round (u1 * of_nat (length ec))\<rfloor>"
    "k < length ec" "r < 4" "c < 4" "currentGrid st ! r ! c = 0"
    "addRandomTile (currentGrid st) u1 u2
       = Inr ((currentGrid st)[r := (currentGrid st ! r)[c := v]])"
    using addRandomTile_wf[OF w assms(6) ne assms(7), of u2] unfolding v' k_def by blast
  let ?g2 = "(currentGrid st)[r := (currentGrid st ! r)[c := v]]"
  have ik: "int k = \<lfloor>binary64_round (u1 * of_nat (length ec))\<rfloor>"
    using rc(2) by (simp add: k_def)
  have near: "int k = \<lfloor>u1 * of_nat (length ec)\<rfloor> \<or> int k = \<lfloor>u1 * of_nat (length ec)\<rfloor> + 1"
    using random_index_near[OF assms(7) n n16] unfolding ik .
  have w2: "wf_grid ?g2" using w by (rule wf_grid_update)
  have m: "fst (move s d u1 u2) = None \<and> getGrid (board (snd (move s d u1 u2))) = Inr ?g2
         \<and> score (snd (move s d u1 u2)) = score s + scoreToAdd st"
    using move_changed[OF assms(1,2,3) mv rc(7) w2] by simp
  have g1: "g1 = (turn ^^ rotations d) g" using assms(5) rotate_grid_wf[OF wg] by simp
  have sc: "scoreToAdd st = sum_list (grid_merge_values g1)"
    using assms(3) unfolding g1 by (auto simp: slide_and_merge_wf[OF wg] split: if_splits)
  have cellv: "?g2 ! r ! c = v"
    using grid_update_nth[OF w rc(4,5) rc(4,5)] by simp
  have others: "\<forall>r' c'. r' < 4 \<and> c' < 4 \<and> (r', c') \<noteq> (r, c) \<longrightarrow>
                ?g2 ! r' ! c' = currentGrid st ! r' ! c'"
    using grid_update_nth[OF w rc(4,5)] by simp
  have cellx: "\<exists>k r c v. int k = \<lfloor>binary64_round (u1 * of_nat (length ec))\<rfloor> \<and> k < length ec
          \<and> (int k = \<lfloor>u1 * of_nat (length ec)\<rfloor> \<or> int k = \<lfloor>u1 * of_nat (length ec)\<rfloor> + 1)
          \<and> ec ! k = (r, c) \<and> r < 4 \<and> c < 4 \<and> currentGrid st ! r ! c = 0
          \<and> v = (if u2 < 9 / 10 then 2 else 4)
          \<and> getGrid (board (snd (move s d u1 u2))) =
                Inr ((currentGrid st)[r := (currentGrid st ! r)[c := v]])
          \<and> (currentGrid st)[r := (currentGrid st ! r)[c := v]] ! r ! c = v
          \<and> (\<forall>r' c'. r' < 4 \<and> c' < 4 \<and> (r', c') \<noteq> (r, c) \<longrightarrow>
                (currentGrid st)[r := (currentGrid st ! r)[c := v]] ! r' ! c'
                  = currentGrid st ! r' ! c')"
    using ik rc(3) near rc(1,4,5,6) v_def m cellv others by blast
  show ?thesis
    using m ne emptyCells_set[OF w assms(6)] cellx sc by auto
qed

theorem changing_move_adds_one_tile_witness:
  "getGrid
           [\<lparr>tile_value = 2, tile_x = 0, tile_y = 0, tile_id = 1, isNew = False, isMerged = False\<rparr>,
            \<lparr>tile_value = 2, tile_x = 1, tile_y = 0, tile_id = 2, isNew = False, isMerged = False\<rparr>,
            \<lparr>tile_value = 4, tile_x = 2, tile_y = 0, tile_id = 3, isNew = False, isMerged = False\<rparr>,
            \<lparr>tile_value = 8, tile_x = 3, tile_y = 0, tile_id = 4, isNew = False, isMerged = False\<rparr>,
            \<lparr>tile_value = 2, tile_x = 0, tile_y = 1, tile_id = 5, isNew = False, isMerged = False\<rparr>,
            \<lparr>tile_value = 4, tile_x = 1, tile_y = 1, tile_id = 6, isNew = False, isMerged = False\<rparr>,
            \<lparr>tile_value = 2, tile_x = 2, tile_y = 1, tile_id = 7, isNew = False, isMerged = False\<rparr>,
            \<lparr>tile_value = 4, tile_x = 3, tile_y = 1, tile_id = 8, isNew = False, isMerged = False\<rparr>,
            \<lparr>tile_value = 4, tile_x = 0, tile_y = 2, tile_id = 9, isNew = False, isMerged = False\<rparr>,
            \<lparr>tile_value = 2, tile_x = 1, tile_y = 2, tile_id = 10, isNew = False, isMerged = False\<rparr>,
            \<lparr>tile_value = 4, tile_x = 2, tile_y = 2, tile_id = 11, isNew = False, isMerged = False\<rparr>,
            \<lparr>tile_value = 2, tile_x = 3, tile_y = 2, tile_id = 12, isNew = False, isMerged = False\<rparr>] =
       Inr [[2, 2, 4, 8], [2, 4, 2, 4], [4, 2, 4, 2], [0, 0, 0, 0]]
   \<and> slide_and_merge Left_dir [[2, 2, 4, 8], [2, 4, 2, 4], [4, 2, 4, 2], [0, 0, 0, 0]] =
       Inr \<lparr>currentGrid = [[4, 4, 8, 0], [2, 4, 2, 4], [4, 2, 4, 2], [0, 0, 0, 0]],
            scoreToAdd = 4, moved = True, mergedCells = {(0, 0)}, winSet = False\<rparr>
   \<and> emptyCells [[4, 4, 8, 0], [2, 4, 2, 4], [4, 2, 4, 2], [0, 0, 0, 0]] =
       Inr [(0, 3), (3, 0), (3, 1), (3, 2), (3, 3)]
   \<and> is_random (5404319552844595 / 9007199254740992) \<and> is_random (15 / 16)
   \<and> \<lfloor>(5404319552844595 / 9007199254740992 :: rat) * 5\<rfloor> = 2
   \<and> \<lfloor>binary64_round (5404319552844595 / 9007199254740992 * 5)\<rfloor> = 3
   \<and> move \<lparr>board =
           [\<lparr>tile_value = 2, tile_x = 0, tile_y = 0, tile_id = 1, isNew = False, isMerged = False\<rparr>,
            \<lparr>tile_value = 2, tile_x = 1, tile_y = 0, tile_id = 2, isNew = False, isMerged = False\<rparr>,
            \<lparr>tile_value = 4, tile_x = 2, tile_y = 0, tile_id = 3, isNew = False, isMerged = False\<rparr>,
            \<lparr>tile_value = 8, tile_x = 3, tile_y = 0, tile_id = 4, isNew = False, isMerged = False\<rparr>,
            \<lparr>tile_value = 2, tile_x = 0, tile_y = 1, tile_id = 5, isNew = False, isMerged = False\<rparr>,
            \<lparr>tile_value = 4, tile_x = 1, tile_y = 1, tile_id = 6, isNew = False, isMerged = False\<rparr>,
            \<lparr>tile_value = 2, tile_x = 2, tile_y = 1, tile_id = 7, isNew = False, isMerged = False\<rparr>,
            \<lparr>tile_value = 4, tile_x = 3, tile_y = 1, tile_id = 8, isNew = False, isMerged = False\<rparr>,
            \<lparr>tile_value = 4, tile_x = 0, tile_y = 2, tile_id = 9, isNew = False, isMerged = False\<rparr>,
            \<lparr>tile_value = 2, tile_x = 1, tile_y = 2, tile_id = 10, isNew = False, isMerged = False\<rparr>,
            \<lparr>tile_value = 4, tile_x = 2, tile_y = 2, tile_id = 11, isNew = False, isMerged = False\<rparr>,
            \<lparr>tile_value = 2, tile_x = 3, tile_y = 2, tile_id = 12, isNew = False, isMerged = False\<rparr>],
            idCounter = 13, score = 10, bestScore = Num 900, stored = Some (utf16 ''900''),
            isGameOver = False, isWin = False\<rparr> Left_dir (5404319552844595 / 9007199254740992) (15 / 16) =
       (None, \<lparr>board =
           [\<lparr>tile_value = 4, tile_x = 0, tile_y = 0, tile_id = 13, isNew = False, isMerged = True\<rparr>,
            \<lparr>tile_value = 4, tile_x = 1, tile_y = 0, tile_id = 14, isNew = False, isMerged = False\<rparr>,
            \<lparr>tile_value = 8, tile_x = 2, tile_y = 0, tile_id = 15, isNew = False, isMerged = False\<rparr>,
            \<lparr>tile_value = 2, tile_x = 0, tile_y = 1, tile_id = 16, isNew = False, isMerged = False\<rparr>,
            \<lparr>tile_value = 4, tile_x = 1, tile_y = 1, tile_id = 17, isNew = False, isMerged = False\<rparr>,
            \<lparr>tile_value = 2, tile_x = 2, tile_y = 1, tile_id = 18, isNew = False, isMerged = False\<rparr>,
            \<lparr>tile_value = 4, tile_x = 3, tile_y = 1, tile_id = 19, isNew = False, isMerged = False\<rparr>,
            \<lparr>tile_value = 4, tile_x = 0, tile_y = 2, tile_id = 20, isNew = False, isMerged = False\<rparr>,
            \<lparr>tile_value = 2, tile_x = 1, tile_y = 2, tile_id = 21, isNew = False, isMerged = False\<rparr>,
            \<lparr>tile_value = 4, tile_x = 2, tile_y = 2, tile_id = 22, isNew = False, isMerged = False\<rparr>,
            \<lparr>tile_value = 2, tile_x = 3, tile_y = 2, tile_id = 23, isNew = False, isMerged = False\<rparr>,
            \<lparr>tile_value = 4, tile_x = 2, tile_y = 3, tile_id = 24, isNew = True, isMerged = False\<rparr>],
            idCounter = 25, score = 14, bestScore = Num 900, stored = Some (utf16 ''900''),
            isGameOver = False, isWin = False\<rparr>)
   \<and> getGrid
           [\<lparr>tile_value = 4, tile_x = 0, tile_y = 0, tile_id = 13, isNew = False, isMerged = True\<rparr>,
            \<lparr>tile_value = 4, tile_x = 1, tile_y = 0, tile_id = 14, isNew = False, isMerged = False\<rparr>,
            \<lparr>tile_value = 8, tile_x = 2, tile_y = 0, tile_id = 15, isNew = False, isMerged = False\<rparr>,
            \<lparr>tile_value = 2, tile_x = 0, tile_y = 1, tile_id = 16, isNew = False, isMerged = False\<rparr>,
            \<lparr>tile_value = 4, tile_x = 1, tile_y = 1, tile_id = 17, isNew = False, isMerged = False\<rparr>,
            \<lparr>tile_value = 2, tile_x = 2, tile_y = 1, tile_id = 18, isNew = False, isMerged = False\<rparr>,
            \<lparr>tile_value = 4, tile_x = 3, tile_y = 1, tile_id = 19, isNew = False, isMerged = False\<rparr>,
            \<lparr>tile_value = 4, tile_x = 0, tile_y = 2, tile_id = 20, isNew = False, isMerged = False\<rparr>,
            \<lparr>tile_value = 2, tile_x = 1, tile_y = 2, tile_id = 21, isNew = False, isMerged = False\<rparr>,
            \<lparr>tile_value = 4, tile_x = 2, tile_y = 2, tile_id = 22, isNew = False, isMerged = False\<rparr>,
            \<lparr>tile_value = 2, tile_x = 3, tile_y = 2, tile_id = 23, isNew = False, isMerged = False\<rparr>,
            \<lparr>tile_value = 4, tile_x = 2, tile_y = 3, tile_id = 24, isNew = True, isMerged = False\<rparr>] =
       Inr [[4, 4, 8, 0], [2, 4, 2, 4], [4, 2, 4, 2], [0, 0, 4, 0]]"
proof -
  let ?b =
          "[\<lparr>tile_value = 2, tile_x = 0, tile_y = 0, tile_id = 1, isNew = False, isMerged = False\<rparr>,
            \<lparr>tile_value = 2, tile_x = 1, tile_y = 0, tile_id = 2, isNew = False, isMerged = False\<rparr>,
            \<lparr>tile_value = 4, tile_x = 2, tile_y = 0, tile_id = 3, isNew = False, isMerged = False\<rparr>,
            \<lparr>tile_value = 8, tile_x = 3, tile_y = 0, tile_id = 4, isNew = False, isMerged = False\<rparr>,
            \<lparr>tile_value = 2, tile_x = 0, tile_y = 1, tile_id = 5, isNew = False, isMerged = False\<rparr>,
            \<lparr>tile_value = 4, tile_x = 1, tile_y = 1, tile_id = 6, isNew = False, isMerged = False\<rparr>,
            \<lparr>tile_value = 2, tile_x = 2, tile_y = 1, tile_id = 7, isNew = False, isMerged = False\<rparr>,
            \<lparr>tile_value = 4, tile_x = 3, tile_y = 1, tile_id = 8, isNew = False, isMerged = False\<rparr>,
            \<lparr>tile_value = 4, tile_x = 0, tile_y = 2, tile_id = 9, isNew = False, isMerged = False\<rparr>,
            \<lparr>tile_value = 2, tile_x = 1, tile_y = 2, tile_id = 10, isNew = False, isMerged = False\<rparr>,
            \<lparr>tile_value = 4, tile_x = 2, tile_y = 2, tile_id = 11, isNew = False, isMerged = False\<rparr>,
            \<lparr>tile_value = 2, tile_x = 3, tile_y = 2, tile_id = 12, isNew = False, isMerged = False\<rparr>]"
  let ?g = "[[2, 2, 4, 8], [2, 4, 2, 4], [4, 2, 4, 2], [0, 0, 0, 0 :: int]]"
  let ?s = "\<lparr>board = ?b, idCounter = 13, score = 10, bestScore = Num 900,
            stored = Some (utf16 ''900''), isGameOver = False, isWin = False\<rparr>"
  let ?st = "\<lparr>currentGrid = [[4, 4, 8, 0], [2, 4, 2, 4], [4, 2, 4, 2], [0, 0, 0, 0]],
            scoreToAdd = 4, moved = True, mergedCells = {(0, 0)}, winSet = False\<rparr>"
  let ?ec = "[(0, 3), (3, 0), (3, 1), (3, 2), (3, 3 :: nat)]
             :: (nat \<times> nat) list"
  let ?b2 =
          "[\<lparr>tile_value = 4, tile_x = 0, tile_y = 0, tile_id = 13, isNew = False, isMerged = True\<rparr>,
            \<lparr>tile_value = 4, tile_x = 1, tile_y = 0, tile_id = 14, isNew = False, isMerged = False\<rparr>,
            \<lparr>tile_value = 8, tile_x = 2, tile_y = 0, tile_id = 15, isNew = False, isMerged = False\<rparr>,
            \<lparr>tile_value = 2, tile_x = 0, tile_y = 1, tile_id = 16, isNew = False, isMerged = False\<rparr>,
            \<lparr>tile_value = 4, tile_x = 1, tile_y = 1, tile_id = 17, isNew = False, isMerged = False\<rparr>,
            \<lparr>tile_value = 2, tile_x = 2, tile_y = 1, tile_id = 18, isNew = False, isMerged = False\<rparr>,
            \<lparr>tile_value = 4, tile_x = 3, tile_y = 1, tile_id = 19, isNew = False, isMerged = False\<rparr>,
            \<lparr>tile_value = 4, tile_x = 0, tile_y = 2, tile_id = 20, isNew = False, isMerged = False\<rparr>,
            \<lparr>tile_value = 2, tile_x = 1, tile_y = 2, tile_id = 21, isNew = False, isMerged = False\<rparr>,
            \<lparr>tile_value = 4, tile_x = 2, tile_y = 2, tile_id = 22, isNew = False, isMerged = False\<rparr>,
            \<lparr>tile_value = 2, tile_x = 3, tile_y = 2, tile_id = 23, isNew = False, isMerged = False\<rparr>,
            \<lparr>tile_value = 4, tile_x = 2, tile_y = 3, tile_id = 24, isNew = True, isMerged = False\<rparr>]"
  let ?u = "5404319552844595 / 9007199254740992 :: rat"
  have gg: "getGrid (board ?s) = Inr ?g" by code_simp
  have a: "\<not> (isGameOver ?s \<and> \<not> isWin ?s)" by simp
  have sl: "slide_and_merge Left_dir ?g = Inr ?st" by code_simp
  have ch: "currentGrid ?st \<noteq> ?g" by simp
  have ro: "rotate_grid ?g (rotations Left_dir) = Inr ?g" by simp
  have ec: "emptyCells (currentGrid ?st) = Inr ?ec" by code_simp
  have u: "is_random ?u" "is_random (15 / 16)" by code_simp+
  have k: "\<lfloor>?u * 5\<rfloor> = 2" "\<lfloor>binary64_round (?u * 5)\<rfloor> = 3"
    by code_simp+
  have m: "move ?s Left_dir ?u (15 / 16) =
       (None, \<lparr>board = ?b2, idCounter = 25, score = 14, bestScore = Num 900,
            stored = Some (utf16 ''900''), isGameOver = False, isWin = False\<rparr>)"
    by code_simp
  have g2: "getGrid ?b2 = Inr [[4, 4, 8, 0], [2, 4, 2, 4], [4, 2, 4, 2], [0, 0, 4, 0]]" by code_simp
  show ?thesis
    using changing_move_adds_one_tile[OF gg a sl ch ro ec u] gg sl m g2 k u ec by simp
qed

subsection \<open>The game-over check\<close>

lemma game_over_scan_iff:
  "game_over_scan g cs \<longleftrightarrow>
     (\<forall>(r, c) \<in> set cs. g ! r ! c \<noteq> 0
        \<and> \<not> (r < 3 \<and> g ! r ! c = g ! (r + 1) ! c)
        \<and> \<not> (c < 3 \<and> g ! r ! c = g ! r ! (c + 1)))"
  by (induction g cs rule: game_over_scan.induct) (auto simp: TILE_COUNT_def)

lemma checkGameOver_wf:
  assumes "wf_grid g"
  shows "checkGameOver g =
     Inr ((\<forall>r c. r < 4 \<and> c < 4 \<longrightarrow> g ! r ! c \<noteq> 0)
        \<and> (\<forall>r c. r < 3 \<and> c < 4 \<longrightarrow> g ! r ! c \<noteq> g ! (r + 1) ! c)
        \<and> (\<forall>r c. r < 4 \<and> c < 3 \<longrightarrow> g ! r ! c \<noteq> g ! r ! (c + 1)))"
proof -
  have "game_over_scan g cells \<longleftrightarrow>
      ((\<forall>r c. r < 4 \<and> c < 4 \<longrightarrow> g ! r ! c \<noteq> 0)
        \<and> (\<forall>r c. r < 3 \<and> c < 4 \<longrightarrow> g ! r ! c \<noteq> g ! (r + 1) ! c)
        \<and> (\<forall>r c. r < 4 \<and> c < 3 \<longrightarrow> g ! r ! c \<noteq> g ! r ! (c + 1)))"
    unfolding game_over_scan_iff set_cells by auto
  then show ?thesis by (simp add: checkGameOver_def grid_fault_wf[OF assms])
qed

text \<open>
  Claim C6. On every grid of the game the game-over check reaches \<open>setIsGameOver(true)\<close>
  if and only if no cell is 0, no cell equals the cell below it and no cell equals the
  cell to its right; and whenever one cell of a grid is overwritten so that two
  horizontally or vertically adjacent cells are equal, the check does not reach it.
\<close>

theorem game_over_iff:
  assumes "wf_grid g"
  shows "checkGameOver g =
     Inr ((\<forall>r c. r < 4 \<and> c < 4 \<longrightarrow> g ! r ! c \<noteq> 0)
        \<and> (\<forall>r c. r < 3 \<and> c < 4 \<longrightarrow> g ! r ! c \<noteq> g ! (r + 1) ! c)
        \<and> (\<forall>r c. r < 4 \<and> c < 3 \<longrightarrow> g ! r ! c \<noteq> g ! r ! (c + 1)))
   \<and> (\<forall>r c v. (\<exists>r' c'. (r' < 3 \<and> c' < 4
                     \<and> g[r := (g ! r)[c := v]] ! r' ! c' = g[r := (g ! r)[c := v]] ! (r' + 1) ! c')
                 \<or> (r' < 4 \<and> c' < 3
                     \<and> g[r := (g ! r)[c := v]] ! r' ! c' = g[r := (g ! r)[c := v]] ! r' ! (c' + 1)))
          \<longrightarrow> checkGameOver (g[r := (g ! r)[c := v]]) = Inr False)"
proof -
  have "checkGameOver (g[r := (g ! r)[c := v]]) = Inr False"
    if "\<exists>r' c'. (r' < 3 \<and> c' < 4
                     \<and> g[r := (g ! r)[c := v]] ! r' ! c' = g[r := (g ! r)[c := v]] ! (r' + 1) ! c')
                 \<or> (r' < 4 \<and> c' < 3
                     \<and> g[r := (g ! r)[c := v]] ! r' ! c' = g[r := (g ! r)[c := v]] ! r' ! (c' + 1))"
    for r c v
  proof -
    have w: "wf_grid (g[r := (g ! r)[c := v]])" using assms by (rule wf_grid_update)
    show ?thesis using that unfolding checkGameOver_wf[OF w] by blast
  qed
  then show ?thesis using checkGameOver_wf[OF assms] by blast
qed

theorem game_over_iff_witness:
  "wf_grid [[2, 4, 2, 4], [4, 2, 4, 2], [2, 4, 2, 4], [4, 2, 4, 2 :: int]]
   \<and> checkGameOver [[2, 4, 2, 4], [4, 2, 4, 2], [2, 4, 2, 4], [4, 2, 4, 2]] = Inr True
   \<and> [[2, 4, 2, 4], [4, 2, 4, 2], [2, 4, 2, 4], [4, 2, 4, 2 :: int]]
        [3 := ([[2, 4, 2, 4], [4, 2, 4, 2], [2, 4, 2, 4], [4, 2, 4, 2]] ! 3)[3 := 4]]
      = [[2, 4, 2, 4], [4, 2, 4, 2], [2, 4, 2, 4], [4, 2, 4, 4]]
   \<and> checkGameOver [[2, 4, 2, 4], [4, 2, 4, 2], [2, 4, 2, 4], [4, 2, 4, 4]] = Inr False"
proof -
  let ?g = "[[2, 4, 2, 4], [4, 2, 4, 2], [2, 4, 2, 4], [4, 2, 4, 2 :: int]]"
  have w: "wf_grid ?g" by (simp add: wf_grid_def TILE_COUNT_def)
  have t: "checkGameOver ?g = Inr True" by code_simp
  have u: "?g[3 := (?g ! 3)[3 := 4]] = [[2, 4, 2, 4], [4, 2, 4, 2], [2, 4, 2, 4], [4, 2, 4, 4]]"
    by simp
  have p: "\<exists>r' c'. (r' < 3 \<and> c' < 4
                     \<and> ?g[3 := (?g ! 3)[3 := 4]] ! r' ! c' = ?g[3 := (?g ! 3)[3 := 4]] ! (r' + 1) ! c')
                 \<or> (r' < 4 \<and> c' < (3::nat)
                     \<and> ?g[3 := (?g ! 3)[3 := 4]] ! r' ! c' = ?g[3 := (?g ! 3)[3 := 4]] ! r' ! (c' + 1))"
    unfolding u by (intro exI[of _ 3] exI[of _ 2]) simp
  have "checkGameOver (?g[3 := (?g ! 3)[3 := 4]]) = Inr False"
    using game_over_iff[OF w] p by blast
  then show ?thesis using w t u by simp
qed

subsection \<open>The win flag\<close>





subsection \<open>Applying the move twice\<close>

lemma adjacent_equal_grid:
  "list_ex adjacent_equal (map spec_slide_row g) \<longleftrightarrow> grid_merge_values (map spec_slide_row g) \<noteq> []"
  by (auto simp: list_ex_iff grid_merge_values_Nil adjacent_equal_slide)

lemma slide_grid_twice:
  assumes "grid_merge_values (map spec_slide_row g) = []"
  shows "map spec_slide_row (map spec_slide_row g) = map spec_slide_row g"
  using assms by (auto simp: grid_merge_values_Nil slide_row_twice)

text \<open>
  Claim C3, as the code has it. The move without the spawn is not idempotent: it merges
  each tile once, so its result can hold a new pair of equal neighbours. For every grid
  of the game and every direction for which it returns, a second application in the same
  direction returns the same grid, with \<open>moved\<close> unset and nothing added to the score, if
  and only if no line of the first result along the move (a row of the result rotated as
  \<open>move\<close> rotates it) has two equal tiles next to each other.
\<close>

theorem second_slide_changes_nothing_iff:
  assumes "wf_grid g" and "slide_and_merge d g = Inr st1"
    and "rotate_grid (currentGrid st1) (rotations d) = Inr h"
  shows "(\<exists>st2. slide_and_merge d (currentGrid st1) = Inr st2
            \<and> currentGrid st2 = currentGrid st1 \<and> \<not> moved st2 \<and> scoreToAdd st2 = 0)
         \<longleftrightarrow> \<not> list_ex adjacent_equal h"
proof -
  let ?nr = "rotations d"
  let ?k = "(4 - rotations d) mod 4"
  let ?g1 = "(turn ^^ ?nr) g"
  define H where "H = map spec_slide_row ?g1"
  have w1: "wf_grid ?g1" using assms(1) by (rule wf_grid_turns)
  have wh: "wf_grid H" unfolding H_def using w1 by (rule wf_grid_slide)
  have cg: "currentGrid st1 = (turn ^^ ?k) H"
    using assms(2) by (auto simp: H_def slide_and_merge_wf[OF assms(1)] split: if_splits)
  have w': "wf_grid (currentGrid st1)" using assms(1,2) by (rule wf_slide_result)
  have "(turn ^^ ?nr) ((turn ^^ ?k) H) = H" using wh rotations_lt by (rule turn_back(2))
  then have h: "h = H" and th: "(turn ^^ ?nr) (currentGrid st1) = H"
    using assms(3) rotate_grid_wf[OF w'] cg by simp_all
  have adj: "list_ex adjacent_equal h \<longleftrightarrow> grid_merge_values H \<noteq> []"
    unfolding h H_def by (rule adjacent_equal_grid)
  show ?thesis
  proof (cases "grid_merge_values H = []")
    case True
    have same: "map spec_slide_row H = H" using True unfolding H_def by (rule slide_grid_twice)
    have "slide_and_merge d (currentGrid st1) =
            Inr \<lparr>currentGrid = currentGrid st1, scoreToAdd = 0, moved = False,
                 mergedCells = {}, winSet = False\<rparr>"
      unfolding slide_and_merge_wf[OF w'] th
      using True same cg by (simp add: grid_merge_cells_Nil)
    then show ?thesis using adj True by simp
  next
    case False
    have "\<not> (\<exists>st2. slide_and_merge d (currentGrid st1) = Inr st2
            \<and> currentGrid st2 = currentGrid st1 \<and> \<not> moved st2 \<and> scoreToAdd st2 = 0)"
    proof
      assume "\<exists>st2. slide_and_merge d (currentGrid st1) = Inr st2
            \<and> currentGrid st2 = currentGrid st1 \<and> \<not> moved st2 \<and> scoreToAdd st2 = 0"
      then obtain st2 where st2: "slide_and_merge d (currentGrid st1) = Inr st2" "\<not> moved st2"
        by blast
      have "grid_merge_values ((turn ^^ ?nr) (currentGrid st1)) = []"
        using unmoved_locals[OF w' st2] by simp
      then show False using False th by simp
    qed
    then show ?thesis using adj False by simp
  qed
qed

theorem second_slide_changes_nothing_iff_witness:
  "wf_grid [[0, 2, 0, 4], [0, 0, 0, 0], [0, 0, 0, 0], [8, 0, 0, 0 :: int]]
   \<and> slide_and_merge Down [[0, 2, 0, 4], [0, 0, 0, 0], [0, 0, 0, 0], [8, 0, 0, 0]] =
       Inr \<lparr>currentGrid = [[8, 2, 0, 4], [0, 0, 0, 0], [0, 0, 0, 0], [0, 0, 0, 0]],
            scoreToAdd = 0, moved = True, mergedCells = {}, winSet = False\<rparr>
   \<and> rotate_grid [[8, 2, 0, 4], [0, 0, 0, 0], [0, 0, 0, 0], [0, 0, 0, 0 :: int]] (rotations Down) =
       Inr [[4, 0, 0, 0], [0, 0, 0, 0], [2, 0, 0, 0], [8, 0, 0, 0]]
   \<and> \<not> list_ex adjacent_equal [[4, 0, 0, 0], [0, 0, 0, 0], [2, 0, 0, 0], [8, 0, 0, 0]]
   \<and> (\<exists>st2. slide_and_merge Down [[8, 2, 0, 4], [0, 0, 0, 0], [0, 0, 0, 0], [0, 0, 0, 0]] = Inr st2
         \<and> currentGrid st2 = [[8, 2, 0, 4], [0, 0, 0, 0], [0, 0, 0, 0], [0, 0, 0, 0]]
         \<and> \<not> moved st2 \<and> scoreToAdd st2 = 0)"
proof -
  let ?g = "[[0, 2, 0, 4], [0, 0, 0, 0], [0, 0, 0, 0], [8, 0, 0, 0 :: int]]"
  let ?st1 = "\<lparr>currentGrid = [[8, 2, 0, 4], [0, 0, 0, 0], [0, 0, 0, 0], [0, 0, 0, 0]],
            scoreToAdd = 0, moved = True, mergedCells = {}, winSet = False\<rparr>"
  let ?h = "[[4, 0, 0, 0], [0, 0, 0, 0], [2, 0, 0, 0], [8, 0, 0, 0 :: int]]"
  have w: "wf_grid ?g" by (simp add: wf_grid_def TILE_COUNT_def)
  have sl: "slide_and_merge Down ?g = Inr ?st1" by code_simp
  have ro: "rotate_grid (currentGrid ?st1) (rotations Down) = Inr ?h" by code_simp
  have na: "\<not> list_ex adjacent_equal ?h" by code_simp
  show ?thesis
    using second_slide_changes_nothing_iff[OF w sl ro] na w sl ro by simp
qed

text \<open>
  The claim as stated fails: the row 2, 2, 4, 0 moved left becomes 4, 4, 0, 0, and moved
  left again becomes 8, 0, 0, 0.
\<close>

theorem slide_and_merge_not_idempotent:
  "slide_and_merge Left_dir [[2, 2, 4, 0], [0, 0, 0, 0], [0, 0, 0, 0], [0, 0, 0, 0]] =
     Inr \<lparr>currentGrid = [[4, 4, 0, 0], [0, 0, 0, 0], [0, 0, 0, 0], [0, 0, 0, 0]],
          scoreToAdd = 4, moved = True, mergedCells = {(0, 0)}, winSet = False\<rparr>
   \<and> slide_and_merge Left_dir [[4, 4, 0, 0], [0, 0, 0, 0], [0, 0, 0, 0], [0, 0, 0, 0]] =
     Inr \<lparr>currentGrid = [[8, 0, 0, 0], [0, 0, 0, 0], [0, 0, 0, 0], [0, 0, 0, 0]],
          scoreToAdd = 8, moved = True, mergedCells = {(0, 0)}, winSet = False\<rparr>"
  by code_simp

subsection \<open>The best score read at startup\<close>









subsection \<open>The cells recorded as merged\<close>









subsection \<open>Merging in the rotated directions\<close>

text \<open>
  Claim C1 at the row 2, 2, 2, 2. Moved left, the row becomes 4, 4, 0, 0. Moved right, the
  same row is row 3 of the rotated grid; its first merge is followed by the lookup of
  the merged cell, which raises a TypeError, so \<open>move\<close> is left with the board unchanged.
\<close>

theorem merge_raises_when_rotated:
  "slide_and_merge Left_dir [[2, 2, 2, 2], [0, 0, 0, 0], [0, 0, 0, 0], [0, 0, 0, 0]] =
     Inr \<lparr>currentGrid = [[4, 4, 0, 0], [0, 0, 0, 0], [0, 0, 0, 0], [0, 0, 0, 0]],
          scoreToAdd = 8, moved = True, mergedCells = {(0, 0), (0, 1)}, winSet = False\<rparr>
   \<and> rotate_grid [[2, 2, 2, 2], [0, 0, 0, 0], [0, 0, 0, 0], [0, 0, 0, 0 :: int]] (rotations Right_dir) =
       Inr [[0, 0, 0, 0], [0, 0, 0, 0], [0, 0, 0, 0], [2, 2, 2, 2]]
   \<and> slide_and_merge Right_dir [[2, 2, 2, 2], [0, 0, 0, 0], [0, 0, 0, 0], [0, 0, 0, 0]] =
       Inl (TypeError, False)
   \<and> getGrid [\<lparr>tile_value = 2, tile_x = 0, tile_y = 0, tile_id = 1,
                     isNew = False, isMerged = False\<rparr>,
              \<lparr>tile_value = 2, tile_x = 1, tile_y = 0, tile_id = 2,
                isNew = False, isMerged = False\<rparr>,
              \<lparr>tile_value = 2, tile_x = 2, tile_y = 0, tile_id = 3,
                isNew = False, isMerged = False\<rparr>,
              \<lparr>tile_value = 2, tile_x = 3, tile_y = 0, tile_id = 4,
                isNew = False, isMerged = False\<rparr>] =
       Inr [[2, 2, 2, 2], [0, 0, 0, 0], [0, 0, 0, 0], [0, 0, 0, 0]]
   \<and> move \<lparr>board = [\<lparr>tile_value = 2, tile_x = 0, tile_y = 0, tile_id = 1,
                                  isNew = False, isMerged = False\<rparr>,
                     \<lparr>tile_value = 2, tile_x = 1, tile_y = 0, tile_id = 2,
                       isNew = False, isMerged = False\<rparr>,
                     \<lparr>tile_value = 2, tile_x = 2, tile_y = 0, tile_id = 3,
                       isNew = False, isMerged = False\<rparr>,
                     \<lparr>tile_value = 2, tile_x = 3, tile_y = 0, tile_id = 4,
                       isNew = False, isMerged = False\<rparr>],
            idCounter = 5, score = 0, bestScore = Num 0, stored = None,
            isGameOver = False, isWin = False\<rparr> Right_dir (1 / 2) (1 / 2) =
       (Some TypeError,
        \<lparr>board = [\<lparr>tile_value = 2, tile_x = 0, tile_y = 0, tile_id = 1,
                           isNew = False, isMerged = False\<rparr>,
                  \<lparr>tile_value = 2, tile_x = 1, tile_y = 0, tile_id = 2,
                    isNew = False, isMerged = False\<rparr>,
                  \<lparr>tile_value = 2, tile_x = 2, tile_y = 0, tile_id = 3,
                    isNew = False, isMerged = False\<rparr>,
                  \<lparr>tile_value = 2, tile_x = 3, tile_y = 0, tile_id = 4,
                    isNew = False, isMerged = False\<rparr>],
            idCounter = 5, score = 0, bestScore = Num 0, stored = None,
            isGameOver = False, isWin = False\<rparr>)"
  by code_simp

end
